(* ===== verification/Prelude.thy ===== *)
theory Prelude
  imports Main "HOL-Library.Sublist" "HOL-Library.Multiset"
begin

text \<open>
  Shared vocabulary of the development: the library behaviour that the
  search engine's sources call (C++ \<open>std::string\<close>, \<open>std::search\<close>,
  \<open>std::getline\<close>, \<open>std::tolower\<close> / \<open>boost::to_lower\<close> in the classic
  locale), written out so that every out-of-range case is a value, and the
  generic lemmas on lists, strings and maps that the component theories share.
  A C++ \<open>std::string\<close> is a byte string: \<^typ>\<open>string\<close> (a list of 8-bit
  \<^typ>\<open>char\<close>), so \<open>length\<close> counts bytes as \<open>size()\<close> does.
\<close>

named_theorems search_simps "rewrite rules of the string library model"

section \<open>Errors of the C++ standard library\<close>

datatype cpp_exc = Out_of_range

type_synonym 'a cpp = "cpp_exc + 'a"

text \<open>Sequencing of calls that may throw: an exception propagates.\<close>

definition cpp_bind :: "'a cpp \<Rightarrow> ('a \<Rightarrow> 'b cpp) \<Rightarrow> 'b cpp" where
  "cpp_bind x f = (case x of Inl e \<Rightarrow> Inl e | Inr v \<Rightarrow> f v)"

section \<open>Case folding in the classic locale\<close>

text \<open>\<open>std::tolower\<close> and \<open>boost::to_lower\<close> in the "C" locale map the
  ASCII letters A..Z to a..z and leave every other byte unchanged.\<close>

definition lower_char :: "char \<Rightarrow> char" where
  "lower_char c =
     (let n = (of_char c :: nat) in if 65 \<le> n \<and> n \<le> 90 then char_of (n + 32) else c)"

abbreviation to_lower :: "string \<Rightarrow> string" where
  "to_lower s \<equiv> map lower_char s"

definition ci_eq :: "char \<Rightarrow> char \<Rightarrow> bool" where
  "ci_eq x y \<longleftrightarrow> lower_char x = lower_char y"

section \<open>Searching: \<open>std::search\<close> and \<open>std::string::find\<close>\<close>

text \<open>\<open>std::search(first1, last1, first2, last2, pred)\<close> returns the first
  position of the haystack where the needle matches under \<open>pred\<close>, and
  \<open>last1\<close> (the haystack's length) when there is none. The model returns that
  offset, so that the code's test \<open>it == end()\<close> is \<open>i = length hay\<close>.\<close>

definition matches_at :: "('a \<Rightarrow> 'a \<Rightarrow> bool) \<Rightarrow> 'a list \<Rightarrow> 'a list \<Rightarrow> nat \<Rightarrow> bool" where
  "matches_at eq nd hay i \<longleftrightarrow>
     i + length nd \<le> length hay \<and> list_all2 eq nd (take (length nd) (drop i hay))"

fun std_search :: "('a \<Rightarrow> 'a \<Rightarrow> bool) \<Rightarrow> 'a list \<Rightarrow> 'a list \<Rightarrow> nat" where
  "std_search eq nd [] = 0"
| "std_search eq nd (h # hs) =
     (if matches_at eq nd (h # hs) 0 then 0 else Suc (std_search eq nd hs))"

text \<open>\<open>s.find(w)\<close>: the first index where \<open>w\<close> occurs literally, \<open>npos\<close>
  (\<^term>\<open>None\<close>) when none does.\<close>

definition str_find :: "string \<Rightarrow> string \<Rightarrow> nat option" where
  "str_find s w =
     (let i = std_search (=) w s in if i + length w \<le> length s then Some i else None)"

section \<open>\<open>substr\<close> and \<open>replace\<close>\<close>

text \<open>\<open>s.substr(pos, n)\<close> throws \<open>out_of_range\<close> when \<open>pos > size()\<close>
  and clips \<open>n\<close> to the end of the string; \<open>s.replace(pos, n, t)\<close> likewise.\<close>

definition substr :: "string \<Rightarrow> nat \<Rightarrow> nat \<Rightarrow> string cpp" where
  "substr s pos n = (if length s < pos then Inl Out_of_range else Inr (take n (drop pos s)))"

definition str_replace :: "string \<Rightarrow> nat \<Rightarrow> nat \<Rightarrow> string \<Rightarrow> string cpp" where
  "str_replace s pos n t =
     (if length s < pos then Inl Out_of_range else Inr (take pos s @ t @ drop (pos + n) s))"

section \<open>Reading lines: \<open>std::getline\<close>\<close>

text \<open>A loop \<open>while (std::getline(in, line))\<close> over a stream holding
  \<open>s\<close>: every line ends at a newline, which is consumed and not returned; a last
  line without a newline is returned when it is not empty; the loop ends at the
  end of the stream.\<close>

abbreviation newline :: char where
  "newline \<equiv> CHR 0x0A"

fun getlines_acc :: "string \<Rightarrow> string \<Rightarrow> string list" where
  "getlines_acc cur [] = (if cur = [] then [] else [cur])"
| "getlines_acc cur (c # cs) =
     (if c = newline then cur # getlines_acc [] cs else getlines_acc (cur @ [c]) cs)"

definition getlines :: "string \<Rightarrow> string list" where
  "getlines s = getlines_acc [] s"

section \<open>Maps with a default entry\<close>

text \<open>\<open>m[k]\<close> on an \<open>unordered_map\<close> inserts a value-initialised entry when
  \<open>k\<close> is absent; \<open>lookup_default d m k\<close> is what it reads.\<close>

definition lookup_default :: "'v \<Rightarrow> ('k \<rightharpoonup> 'v) \<Rightarrow> 'k \<Rightarrow> 'v" where
  "lookup_default d m k = (case m k of None \<Rightarrow> d | Some v \<Rightarrow> v)"

section \<open>Decimal text: \<open>std::to_string\<close>\<close>

text \<open>\<open>std::to_string\<close> on an integer: its decimal digits, with a minus
  sign when negative; \<open>int_of_string\<close> reads such a text back (it stands for
  a reader of the output, not for code of the program).\<close>

fun digits :: "nat \<Rightarrow> string" where
  "digits n = (if n < 10 then [char_of (48 + n)] else digits (n div 10) @ [char_of (48 + n mod 10)])"

definition to_string :: "int \<Rightarrow> string" where
  "to_string i = (if i < 0 then CHR ''-'' # digits (nat (- i)) else digits (nat i))"

definition digit_value :: "char \<Rightarrow> nat" where
  "digit_value c = of_char c - 48"

definition nat_of_digits :: "string \<Rightarrow> nat" where
  "nat_of_digits ds = foldl (\<lambda>a c. 10 * a + digit_value c) 0 ds"

definition int_of_string :: "string \<Rightarrow> int" where
  "int_of_string s =
     (if s \<noteq> [] \<and> hd s = CHR ''-'' then - int (nat_of_digits (tl s)) else int (nat_of_digits s))"

section \<open>Lemmas\<close>

subsection \<open>Case folding\<close>

lemma lower_char_idem [simp]: "lower_char (lower_char c) = lower_char c"
  by (auto simp: lower_char_def Let_def)

lemma to_lower_idem [simp]: "to_lower (to_lower s) = to_lower s"
  by (induction s) auto

lemma ci_eq_refl [simp]: "ci_eq x x"
  by (simp add: ci_eq_def)

lemma list_all2_eq_ci: "list_all2 (=) xs ys \<Longrightarrow> list_all2 ci_eq xs ys"
  by (auto simp: list_all2_conv_all_nth)

subsection \<open>\<open>std::search\<close>\<close>

lemma matches_at_Cons_Suc [simp]:
  "matches_at eq nd (h # hs) (Suc i) = matches_at eq nd hs i"
  by (simp add: matches_at_def)

lemma std_search_le [search_simps]: "std_search eq nd hay \<le> length hay"
  by (induction hay) auto

lemma std_search_found:
  "std_search eq nd hay < length hay \<Longrightarrow> matches_at eq nd hay (std_search eq nd hay)"
proof (induction hay)
  case Nil
  then show ?case by simp
next
  case (Cons h hs)
  then show ?case by (auto split: if_splits)
qed

lemma std_search_first:
  "j < std_search eq nd hay \<Longrightarrow> \<not> matches_at eq nd hay j"
proof (induction hay arbitrary: j)
  case Nil
  then show ?case by simp
next
  case (Cons h hs)
  then show ?case by (cases j) (auto split: if_splits)
qed

lemma std_search_least:
  "matches_at eq nd hay j \<Longrightarrow> j < length hay \<Longrightarrow> std_search eq nd hay \<le> j"
  using std_search_first not_le_imp_less by blast

lemma std_search_not_found:
  "std_search eq nd hay = length hay \<Longrightarrow> j < length hay \<Longrightarrow> \<not> matches_at eq nd hay j"
  by (metis std_search_first)

lemma matches_at_mono:
  assumes "\<And>x y. eq x y \<Longrightarrow> eq' x y" and "matches_at eq nd hay i"
  shows "matches_at eq' nd hay i"
  using assms by (auto simp: matches_at_def elim: list_all2_mono)

subsection \<open>\<open>find\<close>\<close>

lemma str_find_Some:
  "str_find s w = Some i \<longleftrightarrow>
     i + length w \<le> length s \<and> i = std_search (=) w s"
  by (auto simp: str_find_def Let_def)

lemma matches_at_eq_iff:
  "matches_at (=) w s i \<longleftrightarrow> i + length w \<le> length s \<and> take (length w) (drop i s) = w"
  by (auto simp: matches_at_def list.rel_eq)

lemma str_find_match:
  assumes "str_find s w = Some i"
  shows "take (length w) (drop i s) = w" and "i + length w \<le> length s"
proof -
  from assms have le: "i + length w \<le> length s" and i: "i = std_search (=) w s"
    by (auto simp: str_find_Some)
  show "i + length w \<le> length s" by (rule le)
  show "take (length w) (drop i s) = w"
  proof (cases "i < length s")
    case True
    with i have "matches_at (=) w s i" using std_search_found by blast
    then show ?thesis by (simp add: matches_at_eq_iff)
  next
    case False
    with le i std_search_le [of "(=)" w s] have "length w = 0" by linarith
    then show ?thesis by simp
  qed
qed

lemma str_find_first:
  "str_find s w = Some i \<Longrightarrow> j < i \<Longrightarrow> \<not> matches_at (=) w s j"
  by (auto simp: str_find_Some dest: std_search_first)

subsection \<open>\<open>substr\<close>\<close>

lemma substr_ok [search_simps]:
  "pos \<le> length s \<Longrightarrow> substr s pos n = Inr (take n (drop pos s))"
  by (simp add: substr_def)

lemma substr_length:
  "substr s pos n = Inr t \<Longrightarrow> length t = min n (length s - pos)"
  by (auto simp: substr_def split: if_splits)

lemma cpp_bind_Inr [simp]: "cpp_bind (Inr v) f = f v"
  by (simp add: cpp_bind_def)

lemma cpp_bind_Inl [simp]: "cpp_bind (Inl e) f = Inl e"
  by (simp add: cpp_bind_def)

subsection \<open>\<open>getline\<close>\<close>

lemma getlines_acc_no_newline:
  "newline \<notin> set cur \<Longrightarrow> l \<in> set (getlines_acc cur s) \<Longrightarrow> newline \<notin> set l"
  by (induction cur s rule: getlines_acc.induct) (auto split: if_splits)

lemma getlines_no_newline: "l \<in> set (getlines s) \<Longrightarrow> newline \<notin> set l"
  using getlines_acc_no_newline [of "[]" l s] by (simp add: getlines_def)

lemma getlines_acc_record:
  "newline \<notin> set l \<Longrightarrow> getlines_acc cur (l @ newline # rest) = (cur @ l) # getlines_acc [] rest"
  by (induction l arbitrary: cur) auto

lemma getlines_records:
  "\<forall>l \<in> set ls. newline \<notin> set l \<Longrightarrow> getlines (concat (map (\<lambda>l. l @ [newline]) ls)) = ls"
  unfolding getlines_def by (induction ls) (simp_all add: getlines_acc_record)

subsection \<open>Maps with a default entry\<close>

lemma lookup_default_upd [simp]:
  "lookup_default d (m(k \<mapsto> v)) k' = (if k = k' then v else lookup_default d m k')"
  by (simp add: lookup_default_def)

lemma lookup_default_None [simp]: "m k = None \<Longrightarrow> lookup_default d m k = d"
  by (simp add: lookup_default_def)

lemma lookup_default_Some [simp]: "m k = Some v \<Longrightarrow> lookup_default d m k = v"
  by (simp add: lookup_default_def)

subsection \<open>Decimal text\<close>

declare digits.simps [simp del]

lemma digit_value_char [simp]: "d < 10 \<Longrightarrow> digit_value (char_of (48 + d)) = d"
  by (simp add: digit_value_def of_char_of)

lemma nat_of_digits_snoc: "nat_of_digits (ds @ [c]) = 10 * nat_of_digits ds + digit_value c"
  by (simp add: nat_of_digits_def)

lemma nat_of_digits_digits [simp]: "nat_of_digits (digits n) = n"
proof (induction n rule: digits.induct)
  case (1 n)
  show ?case
  proof (cases "n < 10")
    case True
    then show ?thesis by (simp add: digits.simps nat_of_digits_def)
  next
    case False
    then show ?thesis using 1 by (simp add: digits.simps nat_of_digits_snoc)
  qed
qed

lemma digits_ne [simp]: "digits n \<noteq> []"
  by (subst digits.simps) simp

lemma digits_is_digit: "c \<in> set (digits n) \<Longrightarrow> 48 \<le> (of_char c :: nat) \<and> (of_char c :: nat) \<le> 57"
proof (induction n rule: digits.induct)
  case (1 n)
  then show ?case by (subst (asm) digits.simps) (auto simp: of_char_of split: if_splits)
qed

lemma hd_digits_not_minus: "hd (digits n) \<noteq> CHR ''-''"
  using digits_is_digit [of "hd (digits n)" n] by (auto simp: hd_in_set)

lemma int_of_string_to_string [simp]: "int_of_string (to_string i) = i"
  using hd_digits_not_minus [of "nat i"] by (simp add: to_string_def int_of_string_def)

subsection \<open>Sorting through a map\<close>

text \<open>Sorting the images of a list by a key equals mapping the list sorted by
  the key read through the map.\<close>

lemma sort_key_map_eq:
  "(\<And>x. x \<in> set xs \<Longrightarrow> f (g x) = h x) \<Longrightarrow> sort_key f (map g xs) = map g (sort_key h xs)"
proof (induction xs)
  case Nil
  then show ?case by simp
next
  case (Cons x xs)
  have ins: "\<And>ys. set ys \<subseteq> set (x # xs) \<Longrightarrow> insort_key f (g x) (map g ys) = map g (insort_key h x ys)"
  proof -
    fix ys show "set ys \<subseteq> set (x # xs) \<Longrightarrow> insort_key f (g x) (map g ys) = map g (insort_key h x ys)"
      using Cons.prems by (induction ys) auto
  qed
  have "set (sort_key h xs) \<subseteq> set (x # xs)" by auto
  then show ?case using Cons by (simp add: ins)
qed

text \<open>Two keys that order the elements of a list alike sort it alike.\<close>

lemma insort_key_cong_order:
  "(\<And>y. y \<in> set ys \<Longrightarrow> (f x \<le> f y) = (g x \<le> g y)) \<Longrightarrow> insort_key f x ys = insort_key g x ys"
  by (induction ys) auto

lemma sort_key_cong_order:
  "(\<And>x y. x \<in> set xs \<Longrightarrow> y \<in> set xs \<Longrightarrow> (f x \<le> f y) = (g x \<le> g y)) \<Longrightarrow>
   sort_key f xs = sort_key g xs"
proof (induction xs)
  case Nil
  then show ?case by simp
next
  case (Cons x xs)
  then have "sort_key f xs = sort_key g xs" by simp
  moreover have "insort_key f x (sort_key g xs) = insort_key g x (sort_key g xs)"
    by (rule insort_key_cong_order) (simp add: Cons.prems)
  ultimately show ?case by simp
qed

end
