(* ===== verification/Tools.thy ===== *)
theory Tools
  imports Prelude
begin

text \<open>
  Model of \<open>src/tools.hpp\<close>: \<open>split_string\<close> (a call of \<open>boost::split\<close>
  with \<open>is_any_of(sep)\<close> and \<open>token_compress_on\<close>) and the tokenizer wrapper
  \<open>JiebaUtil\<close>: its state (the cppjieba segmenter and the stop-word table),
  \<open>InitJiebaUtil\<close> (loading the stop words) and \<open>CutStringHelper\<close> /
  \<open>CutString\<close> (segmenting and erasing stop words). The segmenter
  \<open>cppjieba::Jieba::CutForSearch\<close> is a library the sources only call; it is a
  parameter of the state, an arbitrary function from text to tokens.
\<close>

section \<open>\<open>split_string\<close>\<close>

text \<open>
  \<open>boost::split\<close> with \<open>token_compress_on\<close> cuts the input at every maximal
  run of separator characters: the pieces between the runs are the tokens,
  the piece before the first run and the piece after the last run included
  (so a leading or trailing separator gives an empty token, and the empty
  input gives one empty token). \<open>cur\<close> is the token being read.
\<close>

function split_acc :: "string \<Rightarrow> string \<Rightarrow> string \<Rightarrow> string list" where
  "split_acc sep cur [] = [cur]"
| "split_acc sep cur (c # cs) =
     (if c \<in> set sep then cur # split_acc sep [] (dropWhile (\<lambda>x. x \<in> set sep) cs)
      else split_acc sep (cur @ [c]) cs)"
  by pat_completeness auto
termination
  by (relation "measure (\<lambda>(_, _, cs). length cs)") (auto simp: le_imp_less_Suc length_dropWhile_le)

definition split_string :: "string \<Rightarrow> string \<Rightarrow> string list" where
  "split_string str sep = split_acc sep [] str"

text \<open>The field separator of the corpus file, \<open>'\\3'\<close>.\<close>

abbreviation SEP3 :: string where
  "SEP3 \<equiv> [CHR 0x03]"

section \<open>\<open>JiebaUtil\<close>\<close>

record jieba_util =
  jieba :: "string \<Rightarrow> string list"
  stop_words :: "string \<rightharpoonup> bool"

text \<open>The constructor stores the segmenter; \<open>InitJiebaUtil\<close> then reads the
  stop-word file line by line and inserts each line. When the file cannot be
  opened (\<^term>\<open>None\<close>) it logs a FATAL message and returns, leaving the table
  empty: the process goes on without stop words.\<close>

definition InitJiebaUtil :: "string option \<Rightarrow> jieba_util \<Rightarrow> jieba_util" where
  "InitJiebaUtil file ju =
     (case file of
        None \<Rightarrow> ju
      | Some txt \<Rightarrow>
          ju\<lparr>stop_words := fold (\<lambda>l m. if m l = None then m(l \<mapsto> True) else m)
                                (getlines txt) (stop_words ju)\<rparr>)"

definition new_JiebaUtil :: "(string \<Rightarrow> string list) \<Rightarrow> string option \<Rightarrow> jieba_util" where
  "new_JiebaUtil seg stop_file = InitJiebaUtil stop_file \<lparr>jieba = seg, stop_words = Map.empty\<rparr>"

text \<open>The erase loop of \<open>CutStringHelper\<close>: an element found in the table
  is erased (the iterator moves to the next element), any other is kept.\<close>

fun erase_stop_words :: "(string \<rightharpoonup> bool) \<Rightarrow> string list \<Rightarrow> string list" where
  "erase_stop_words sw [] = []"
| "erase_stop_words sw (w # ws) =
     (if sw w \<noteq> None then erase_stop_words sw ws else w # erase_stop_words sw ws)"

definition CutStringHelper :: "jieba_util \<Rightarrow> string \<Rightarrow> string list" where
  "CutStringHelper ju src = erase_stop_words (stop_words ju) (jieba ju src)"

abbreviation CutString :: "jieba_util \<Rightarrow> string \<Rightarrow> string list" where
  "CutString ju src \<equiv> CutStringHelper ju src"

text \<open>A segmenter for the worked examples: it cuts at spaces (the library's
  segmenter is a parameter; any function from text to tokens can stand for it),
  with the single stop word \<open>the\<close>.\<close>

definition space_jieba :: jieba_util where
  "space_jieba = \<lparr>jieba = (\<lambda>s. split_string s '' ''), stop_words = [''the'' \<mapsto> True]\<rparr>"

section \<open>Lemmas\<close>

subsection \<open>Splitting\<close>

lemma split_acc_plain:
  "set f \<inter> set sep = {} \<Longrightarrow> split_acc sep cur f = [cur @ f]"
  by (induction f arbitrary: cur) auto

lemma split_acc_field:
  assumes "set f \<inter> set sep = {}" and "s \<in> set sep"
  shows "split_acc sep cur (f @ s # rest) = (cur @ f) # split_acc sep [] (dropWhile (\<lambda>x. x \<in> set sep) rest)"
  using assms by (induction f arbitrary: cur) auto

lemma split_acc_nonempty [simp]: "split_acc sep cur s \<noteq> []"
  by (induction sep cur s rule: split_acc.induct) auto

subsection \<open>Stop words\<close>

lemma erase_stop_words_filter [simp]:
  "erase_stop_words sw ws = filter (\<lambda>w. sw w = None) ws"
  by (induction ws) auto

lemma CutString_no_stop_word:
  "w \<in> set (CutString ju src) \<Longrightarrow> stop_words ju w = None"
  by (simp add: CutStringHelper_def)

lemma CutString_sub: "set (CutString ju src) \<subseteq> set (jieba ju src)"
  by (auto simp: CutStringHelper_def)

lemma InitJiebaUtil_dom:
  "dom (stop_words (InitJiebaUtil (Some txt) ju)) = dom (stop_words ju) \<union> set (getlines txt)"
proof -
  have "\<And>m. dom (fold (\<lambda>l m. if m l = None then m(l \<mapsto> True) else m) ls m) = dom m \<union> set ls"
    for ls :: "string list"
    by (induction ls) (auto split: if_splits)
  then show ?thesis by (simp add: InitJiebaUtil_def)
qed

section \<open>Properties of the line format\<close>

text \<open>C20. A corpus line written as title, separator, content, separator, url
  splits back into exactly those three fields when no field contains the
  separator and the content is not empty.\<close>

theorem split_record_roundtrip:
  assumes "CHR 0x03 \<notin> set t" and "CHR 0x03 \<notin> set c" and "CHR 0x03 \<notin> set u" and "c \<noteq> []"
  shows "split_string (t @ SEP3 @ c @ SEP3 @ u) SEP3 = [t, c, u]"
proof -
  have "dropWhile (\<lambda>x. x \<in> set SEP3) (c @ SEP3 @ u) = c @ SEP3 @ u"
    using assms(2,4) by (cases c) auto
  moreover have "dropWhile (\<lambda>x. x \<in> set SEP3) u = u"
    using assms(3) by (cases u) auto
  ultimately show ?thesis
    using assms by (simp add: split_string_def split_acc_field split_acc_plain)
qed

theorem split_record_roundtrip_witness:
  "CHR 0x03 \<notin> set ''Title'' \<and> CHR 0x03 \<notin> set ''body'' \<and> CHR 0x03 \<notin> set ''url'' \<and> ''body'' \<noteq> [] \<and>
   split_string (''Title'' @ SEP3 @ ''body'' @ SEP3 @ ''url'') SEP3 = [''Title'', ''body'', ''url'']"
proof -
  have h: "CHR 0x03 \<notin> set ''Title''" "CHR 0x03 \<notin> set ''body''" "CHR 0x03 \<notin> set ''url''" "''body'' \<noteq> []"
    by simp_all
  show ?thesis using h split_record_roundtrip [OF h] by simp
qed

text \<open>C21. With \<open>token_compress_on\<close>, the two separators around an empty
  content merge: the line splits into two fields only, so a document with an
  empty body does not make a record.\<close>

theorem split_empty_content:
  assumes "CHR 0x03 \<notin> set t" and "CHR 0x03 \<notin> set u"
  shows "split_string (t @ SEP3 @ [] @ SEP3 @ u) SEP3 = [t, u]"
proof -
  have "dropWhile (\<lambda>x. x \<in> set SEP3) (SEP3 @ u) = u"
    using assms(2) by (cases u) auto
  then show ?thesis
    using assms by (simp add: split_string_def split_acc_field split_acc_plain)
qed

theorem split_empty_content_witness:
  "CHR 0x03 \<notin> set ''Title'' \<and> CHR 0x03 \<notin> set ''url'' \<and>
   split_string (''Title'' @ SEP3 @ [] @ SEP3 @ ''url'') SEP3 = [''Title'', ''url'']"
proof -
  have h: "CHR 0x03 \<notin> set ''Title''" "CHR 0x03 \<notin> set ''url''" by simp_all
  show ?thesis using h split_empty_content [OF h] by simp
qed

section \<open>Properties of the tokenizer\<close>

text \<open>C24. The tokens the index and the searcher work with: after
  \<open>InitJiebaUtil\<close> has read the stop-word file, \<open>CutString\<close> returns the
  segmenter's tokens in their order, with every token that is a line of the
  file erased (repetitions and adjacent stop words included); when the file
  cannot be opened, nothing is erased.\<close>

theorem CutString_stop_words:
  "CutString (new_JiebaUtil seg stop_file) src =
     filter (\<lambda>w. w \<notin> set (case stop_file of None \<Rightarrow> [] | Some f \<Rightarrow> getlines f)) (seg src)"
proof (cases stop_file)
  case None
  then show ?thesis by (simp add: CutStringHelper_def new_JiebaUtil_def InitJiebaUtil_def)
next
  case (Some f)
  have "stop_words (new_JiebaUtil seg (Some f)) w = None \<longleftrightarrow> w \<notin> set (getlines f)" for w
    using InitJiebaUtil_dom [of f "\<lparr>jieba = seg, stop_words = Map.empty\<rparr>"]
    by (auto simp: new_JiebaUtil_def)
  with Some show ?thesis
    by (simp add: CutStringHelper_def new_JiebaUtil_def InitJiebaUtil_def del: erase_stop_words.simps)
qed

end
