(* ===== verification/Index.thy ===== *)
theory Index
  imports Tools
begin

text \<open>
  Model of \<open>src/index.hpp\<close>: the classes \<open>Doc\<close> and \<open>Inverted_item\<close>,
  the state of \<open>Index\<close> (the forward index, a vector of documents, and the
  inverted index, a hash map from a word to its posting list), and its
  operations \<open>create_index\<close>, \<open>create_forward_index\<close>,
  \<open>create_inverted_index\<close>, \<open>get_forward_index\<close> and
  \<open>get_inverted_index\<close>. Every operation takes the state and returns the new
  one. The corpus file is its contents (\<^term>\<open>None\<close> when it cannot be
  opened), read line by line with \<^const>\<open>getlines\<close>.
\<close>

section \<open>Data\<close>

record doc =
  title :: string
  content :: string
  url :: string
  doc_id :: nat

record inverted_item =
  item_id :: nat
  item_word :: string
  item_weight :: int

type_synonym inverted_list = "inverted_item list"

record index =
  forward_index :: "doc list"
  inverted_index :: "string \<rightharpoonup> inverted_list"

definition new_Index :: index where
  "new_Index = \<lparr>forward_index = [], inverted_index = Map.empty\<rparr>"

text \<open>The local struct \<open>word_num\<close> of \<open>create_inverted_index\<close>: how often
  a word occurs in the title and in the content.\<close>

record word_num =
  title_num :: nat
  content_num :: nat

definition word_num0 :: word_num where
  "word_num0 = \<lparr>title_num = 0, content_num = 0\<rparr>"

section \<open>Building the forward index\<close>

definition create_forward_index :: "string \<Rightarrow> index \<Rightarrow> index option" where
  "create_forward_index data_line idx =
     (let res = split_string data_line SEP3 in
      if length res \<noteq> 3 then None
      else Some (idx\<lparr>forward_index := forward_index idx @
        [\<lparr>title = res ! 0, content = res ! 1, url = res ! 2,
          doc_id = length (forward_index idx)\<rparr>]\<rparr>))"

section \<open>Building the inverted index\<close>

text \<open>The two counting loops: every token is case-folded and counts once for
  its field; \<open>word_cnt[word]\<close> creates a zero entry for a new word.\<close>

definition count_title :: "string list \<Rightarrow> (string \<rightharpoonup> word_num) \<Rightarrow> (string \<rightharpoonup> word_num)" where
  "count_title ws wc0 =
     fold (\<lambda>w wc. let k = to_lower w; v = lookup_default word_num0 wc k
                  in wc(k \<mapsto> v\<lparr>title_num := title_num v + 1\<rparr>)) ws wc0"

definition count_content :: "string list \<Rightarrow> (string \<rightharpoonup> word_num) \<Rightarrow> (string \<rightharpoonup> word_num)" where
  "count_content ws wc0 =
     fold (\<lambda>w wc. let k = to_lower w; v = lookup_default word_num0 wc k
                  in wc(k \<mapsto> v\<lparr>content_num := content_num v + 1\<rparr>)) ws wc0"

text \<open>\<open>#define TITLE 5\<close>, \<open>#define CONTENT 1\<close>.\<close>

definition word_weight :: "word_num \<Rightarrow> int" where
  "word_weight v = int (title_num v * 5 + content_num v * 1)"

text \<open>One iteration of the loop over \<open>word_cnt\<close>: \<open>inverted_index[word]\<close>
  (an empty list for a new word) gets the item appended.\<close>

definition push_posting ::
  "nat \<Rightarrow> (string \<rightharpoonup> word_num) \<Rightarrow> string \<Rightarrow> (string \<rightharpoonup> inverted_list) \<Rightarrow> (string \<rightharpoonup> inverted_list)" where
  "push_posting did wc k ii =
     ii(k \<mapsto> lookup_default [] ii k @
            [\<lparr>item_id = did, item_word = k, item_weight = word_weight (lookup_default word_num0 wc k)\<rparr>])"

text \<open>The loop runs over the keys of an \<open>unordered_map\<close>, in an order the
  language leaves open. \<open>add_postings\<close> takes that order as a list of the
  keys; \<open>create_inverted_index\<close> uses the order of first occurrence, and
  \<open>add_postings_order\<close> below shows that every order gives the same index.\<close>

definition add_postings ::
  "nat \<Rightarrow> (string \<rightharpoonup> word_num) \<Rightarrow> string list \<Rightarrow> (string \<rightharpoonup> inverted_list) \<Rightarrow> (string \<rightharpoonup> inverted_list)" where
  "add_postings did wc ks ii = fold (push_posting did wc) ks ii"

definition word_keys :: "string list \<Rightarrow> string list \<Rightarrow> string list" where
  "word_keys tw cw = remdups (map to_lower tw @ map to_lower cw)"

definition create_inverted_index :: "jieba_util \<Rightarrow> doc \<Rightarrow> index \<Rightarrow> index" where
  "create_inverted_index ju d idx =
     (let title_word = CutString ju (title d);
          content_word = CutString ju (content d);
          word_cnt = count_content content_word (count_title title_word Map.empty)
      in idx\<lparr>inverted_index :=
               add_postings (doc_id d) word_cnt (word_keys title_word content_word)
                 (inverted_index idx)\<rparr>)"

section \<open>\<open>create_index\<close>\<close>

text \<open>One line of the corpus: a line that does not split into three fields
  is skipped (a WARNING is logged); otherwise the new document, the last of
  the forward index, is indexed.\<close>

definition index_line :: "jieba_util \<Rightarrow> string \<Rightarrow> index \<Rightarrow> index" where
  "index_line ju data_line idx =
     (case create_forward_index data_line idx of
        None \<Rightarrow> idx
      | Some idx' \<Rightarrow> create_inverted_index ju (last (forward_index idx')) idx')"

definition create_index :: "jieba_util \<Rightarrow> string option \<Rightarrow> index \<Rightarrow> bool \<times> index" where
  "create_index ju input idx =
     (case input of
        None \<Rightarrow> (False, idx)
      | Some txt \<Rightarrow> (True, fold (index_line ju) (getlines txt) idx))"

section \<open>Lookups\<close>

definition get_forward_index :: "index \<Rightarrow> nat \<Rightarrow> doc option" where
  "get_forward_index idx i =
     (if length (forward_index idx) \<le> i then None else Some (forward_index idx ! i))"

definition get_inverted_index :: "index \<Rightarrow> string \<Rightarrow> inverted_list option" where
  "get_inverted_index idx w = inverted_index idx w"

section \<open>What the index should hold\<close>

text \<open>The case-folded tokens of a document's title and content, as
  \<open>create_inverted_index\<close> counts them, the weight the specification gives
  a word of a document (5 per title occurrence, 1 per content occurrence), and
  the fields of a corpus line that splits into exactly three.\<close>

definition title_terms :: "jieba_util \<Rightarrow> doc \<Rightarrow> string list" where
  "title_terms ju d = map to_lower (CutString ju (title d))"

definition content_terms :: "jieba_util \<Rightarrow> doc \<Rightarrow> string list" where
  "content_terms ju d = map to_lower (CutString ju (content d))"

definition doc_terms :: "jieba_util \<Rightarrow> doc \<Rightarrow> string set" where
  "doc_terms ju d = set (title_terms ju d) \<union> set (content_terms ju d)"

definition doc_weight :: "jieba_util \<Rightarrow> doc \<Rightarrow> string \<Rightarrow> int" where
  "doc_weight ju d w = int (5 * count_list (title_terms ju d) w + count_list (content_terms ju d) w)"

definition record_of_line :: "string \<Rightarrow> (string \<times> string \<times> string) option" where
  "record_of_line l =
     (case split_string l SEP3 of [t, c, u] \<Rightarrow> Some (t, c, u) | _ \<Rightarrow> None)"

definition doc_fields :: "doc \<Rightarrow> string \<times> string \<times> string" where
  "doc_fields d = (title d, content d, url d)"

text \<open>The document a well-formed line creates, and the effect of one such
  line on the state: append the document, then index it.\<close>

definition new_doc :: "string \<times> string \<times> string \<Rightarrow> nat \<Rightarrow> doc" where
  "new_doc r n = (case r of (t, c, u) \<Rightarrow> \<lparr>title = t, content = c, url = u, doc_id = n\<rparr>)"

definition add_doc :: "jieba_util \<Rightarrow> doc \<Rightarrow> index \<Rightarrow> index" where
  "add_doc ju d idx = create_inverted_index ju d (idx\<lparr>forward_index := forward_index idx @ [d]\<rparr>)"

text \<open>The invariant of a built index: document ids are the positions
  \<open>0..N-1\<close>; every posting list is non-empty, strictly ordered by document
  id, and each posting names its word, a document of the forward index that
  has that word, and the weight the specification gives it; every word of
  every document has a posting for that document.\<close>

definition ids_dense :: "index \<Rightarrow> bool" where
  "ids_dense idx \<longleftrightarrow> (\<forall>i < length (forward_index idx). doc_id (forward_index idx ! i) = i)"

definition posting_ok :: "jieba_util \<Rightarrow> doc list \<Rightarrow> string \<Rightarrow> inverted_item \<Rightarrow> bool" where
  "posting_ok ju fwd w p \<longleftrightarrow>
     item_word p = w \<and> item_id p < length fwd \<and> w \<in> doc_terms ju (fwd ! item_id p) \<and>
     item_weight p = doc_weight ju (fwd ! item_id p) w"

definition postings_sound :: "jieba_util \<Rightarrow> index \<Rightarrow> bool" where
  "postings_sound ju idx \<longleftrightarrow>
     (\<forall>w ps. inverted_index idx w = Some ps \<longrightarrow>
        ps \<noteq> [] \<and> sorted_wrt (<) (map item_id ps) \<and>
        (\<forall>p \<in> set ps. posting_ok ju (forward_index idx) w p))"

definition postings_complete :: "jieba_util \<Rightarrow> index \<Rightarrow> bool" where
  "postings_complete ju idx \<longleftrightarrow>
     (\<forall>i < length (forward_index idx). \<forall>w \<in> doc_terms ju (forward_index idx ! i).
        \<exists>ps. inverted_index idx w = Some ps \<and> i \<in> set (map item_id ps))"

definition index_inv :: "jieba_util \<Rightarrow> index \<Rightarrow> bool" where
  "index_inv ju idx \<longleftrightarrow> ids_dense idx \<and> postings_sound ju idx \<and> postings_complete ju idx"

section \<open>Lemmas\<close>

subsection \<open>Counting and posting\<close>

lemma count_title_at:
  "count_title ws wc0 k =
     (if k \<in> set (map to_lower ws)
      then Some (let v = lookup_default word_num0 wc0 k in
                 \<lparr>title_num = title_num v + count_list (map to_lower ws) k, content_num = content_num v\<rparr>)
      else wc0 k)"
  unfolding count_title_def
proof (induction ws arbitrary: wc0)
  case Nil
  then show ?case by simp
next
  case (Cons w ws)
  then show ?case by (auto simp: Let_def lookup_default_def split: option.splits)
qed

lemma count_content_at:
  "count_content ws wc0 k =
     (if k \<in> set (map to_lower ws)
      then Some (let v = lookup_default word_num0 wc0 k in
                 \<lparr>title_num = title_num v, content_num = content_num v + count_list (map to_lower ws) k\<rparr>)
      else wc0 k)"
  unfolding count_content_def
proof (induction ws arbitrary: wc0)
  case Nil
  then show ?case by simp
next
  case (Cons w ws)
  then show ?case by (auto simp: Let_def lookup_default_def split: option.splits)
qed

lemma word_cnt_at:
  "count_content cw (count_title tw Map.empty) k =
     (if k \<in> set (map to_lower tw) \<union> set (map to_lower cw)
      then Some \<lparr>title_num = count_list (map to_lower tw) k, content_num = count_list (map to_lower cw) k\<rparr>
      else None)"
  by (auto simp: count_content_at count_title_at Let_def word_num0_def count_list_0_iff lookup_default_def)

lemma add_postings_at:
  "distinct ks \<Longrightarrow> add_postings did wc ks ii k =
     (if k \<in> set ks
      then Some (lookup_default [] ii k @
             [\<lparr>item_id = did, item_word = k, item_weight = word_weight (lookup_default word_num0 wc k)\<rparr>])
      else ii k)"
  unfolding add_postings_def
proof (induction ks arbitrary: ii)
  case Nil
  then show ?case by simp
next
  case (Cons k' ks)
  then show ?case by (auto simp: push_posting_def lookup_default_def)
qed


lemma word_keys_distinct: "distinct (word_keys tw cw)"
  by (simp add: word_keys_def)

lemma set_word_keys: "set (word_keys (CutString ju (title d)) (CutString ju (content d))) = doc_terms ju d"
  by (simp add: word_keys_def doc_terms_def title_terms_def content_terms_def)

lemma create_inverted_index_at:
  "inverted_index (create_inverted_index ju d idx) w =
     (if w \<in> doc_terms ju d
      then Some (lookup_default [] (inverted_index idx) w @
                 [\<lparr>item_id = doc_id d, item_word = w, item_weight = doc_weight ju d w\<rparr>])
      else inverted_index idx w)"
proof -
  have "w \<in> doc_terms ju d \<Longrightarrow>
        word_weight (lookup_default word_num0
          (count_content (CutString ju (content d)) (count_title (CutString ju (title d)) Map.empty)) w)
        = doc_weight ju d w"
    by (auto simp: word_cnt_at word_weight_def doc_weight_def doc_terms_def title_terms_def content_terms_def)
  then show ?thesis
    by (simp add: create_inverted_index_def Let_def add_postings_at word_keys_distinct set_word_keys)
qed

lemma forward_create_inverted_index [simp]:
  "forward_index (create_inverted_index ju d idx) = forward_index idx"
  by (simp add: create_inverted_index_def Let_def)

lemma length_eq_3_conv: "length xs = 3 \<longleftrightarrow> (\<exists>a b c. xs = [a, b, c])"
  by (auto simp: numeral_3_eq_3 length_Suc_conv)

lemma create_forward_index_eq:
  "create_forward_index l idx =
     map_option (\<lambda>r. idx\<lparr>forward_index := forward_index idx @ [new_doc r (length (forward_index idx))]\<rparr>)
       (record_of_line l)"
  by (auto simp: create_forward_index_def record_of_line_def new_doc_def Let_def length_eq_3_conv
           split: list.splits)

lemma index_line_eq:
  "index_line ju l idx =
     (case record_of_line l of None \<Rightarrow> idx
      | Some r \<Rightarrow> add_doc ju (new_doc r (length (forward_index idx))) idx)"
  by (simp add: index_line_def create_forward_index_eq add_doc_def split: option.split)


lemma posting_ok_append:
  "posting_ok ju fwd w p \<Longrightarrow> posting_ok ju (fwd @ [d]) w p"
  by (auto simp: posting_ok_def nth_append)

lemma posting_ok_new:
  "w \<in> doc_terms ju d \<Longrightarrow>
   posting_ok ju (fwd @ [d]) w \<lparr>item_id = length fwd, item_word = w, item_weight = doc_weight ju d w\<rparr>"
  by (simp add: posting_ok_def)

lemma add_doc_ids_dense:
  "ids_dense idx \<Longrightarrow> doc_id d = length (forward_index idx) \<Longrightarrow> ids_dense (add_doc ju d idx)"
  by (auto simp: ids_dense_def add_doc_def nth_append less_Suc_eq)

lemma add_doc_sound:
  assumes sound: "postings_sound ju idx" and d: "doc_id d = length (forward_index idx)"
  shows "postings_sound ju (add_doc ju d idx)"
  unfolding postings_sound_def
proof (intro allI impI)
  fix w ps
  let ?fwd = "forward_index idx"
  let ?old = "lookup_default [] (inverted_index idx) w"
  assume ps: "inverted_index (add_doc ju d idx) w = Some ps"
  have "(\<forall>p \<in> set ?old. posting_ok ju ?fwd w p) \<and> sorted_wrt (<) (map item_id ?old)"
    using sound by (cases "inverted_index idx w") (auto simp: postings_sound_def lookup_default_def)
  then have old: "\<forall>p \<in> set ?old. posting_ok ju ?fwd w p"
    and old_sorted: "sorted_wrt (<) (map item_id ?old)" by simp_all
  then have old_lt: "\<forall>p \<in> set ?old. item_id p < length ?fwd"
    by (auto simp: posting_ok_def)
  show "ps \<noteq> [] \<and> sorted_wrt (<) (map item_id ps) \<and>
        (\<forall>p \<in> set ps. posting_ok ju (forward_index (add_doc ju d idx)) w p)"
  proof (cases "w \<in> doc_terms ju d")
    case True
    with ps d have ps_eq: "ps = ?old @ [\<lparr>item_id = length ?fwd, item_word = w, item_weight = doc_weight ju d w\<rparr>]"
      by (simp add: add_doc_def create_inverted_index_at)
    have "sorted_wrt (<) (map item_id ps)"
      using old_sorted old_lt by (simp add: ps_eq sorted_wrt_append)
    moreover have "\<forall>p \<in> set ps. posting_ok ju (?fwd @ [d]) w p"
      using old True by (auto simp: ps_eq posting_ok_append posting_ok_new)
    ultimately show ?thesis by (simp add: ps_eq add_doc_def)
  next
    case False
    with ps have "inverted_index idx w = Some ps"
      by (simp add: add_doc_def create_inverted_index_at)
    with sound show ?thesis
      by (auto simp: postings_sound_def add_doc_def posting_ok_append)
  qed
qed

lemma add_doc_complete:
  assumes comp: "postings_complete ju idx" and d: "doc_id d = length (forward_index idx)"
  shows "postings_complete ju (add_doc ju d idx)"
  unfolding postings_complete_def
proof (intro allI impI ballI)
  fix i w
  let ?fwd = "forward_index idx"
  assume i: "i < length (forward_index (add_doc ju d idx))"
    and w: "w \<in> doc_terms ju (forward_index (add_doc ju d idx) ! i)"
  show "\<exists>ps. inverted_index (add_doc ju d idx) w = Some ps \<and> i \<in> set (map item_id ps)"
  proof (cases "i < length ?fwd")
    case True
    with w have "w \<in> doc_terms ju (?fwd ! i)" by (simp add: add_doc_def nth_append)
    with comp True obtain ps where "inverted_index idx w = Some ps" "i \<in> set (map item_id ps)"
      unfolding postings_complete_def by blast
    then show ?thesis by (auto simp: add_doc_def create_inverted_index_at)
  next
    case False
    with i have "i = length ?fwd" by (simp add: add_doc_def)
    with w d show ?thesis by (auto simp: add_doc_def create_inverted_index_at)
  qed
qed

lemma add_doc_inv:
  "index_inv ju idx \<Longrightarrow> doc_id d = length (forward_index idx) \<Longrightarrow> index_inv ju (add_doc ju d idx)"
  by (simp add: index_inv_def add_doc_ids_dense add_doc_sound add_doc_complete)

lemma index_line_inv: "index_inv ju idx \<Longrightarrow> index_inv ju (index_line ju l idx)"
  by (auto simp: index_line_eq new_doc_def add_doc_inv split: option.split prod.split)

lemma fold_index_line_inv: "index_inv ju idx \<Longrightarrow> index_inv ju (fold (index_line ju) ls idx)"
  by (induction ls arbitrary: idx) (auto simp: index_line_inv)

lemma new_Index_inv: "index_inv ju new_Index"
  by (simp add: index_inv_def ids_dense_def postings_sound_def postings_complete_def new_Index_def)

subsection \<open>Building documents\<close>

lemma doc_fields_new_doc [simp]: "doc_fields (new_doc r n) = r"
  by (cases r) (simp add: new_doc_def doc_fields_def)

lemma forward_add_doc [simp]: "forward_index (add_doc ju d idx) = forward_index idx @ [d]"
  by (simp add: add_doc_def)

lemma fold_index_line_fields:
  "map doc_fields (forward_index (fold (index_line ju) ls idx)) =
     map doc_fields (forward_index idx) @ List.map_filter record_of_line ls"
  by (induction ls arbitrary: idx) (auto simp: index_line_eq map_filter_simps split: option.split)

lemma length_fold_index_line:
  "length (forward_index (fold (index_line ju) ls idx)) =
     length (forward_index idx) + length (List.map_filter record_of_line ls)"
  using fold_index_line_fields [of ju ls idx] by (metis length_append length_map)

section \<open>Properties of the index\<close>

text \<open>C1. Building keeps the index well formed: from a well-formed state (the
  empty index in particular), \<open>create_index\<close> yields a state whose document
  ids are \<open>0..N-1\<close>, whose posting lists are non-empty, strictly ordered by
  document id and carry the right word, document and weight, and in which
  every word of every document has a posting.\<close>

theorem create_index_inv:
  assumes "index_inv ju idx" and "create_index ju input idx = (ok, idx')"
  shows "index_inv ju idx'"
  using assms by (auto simp: create_index_def fold_index_line_inv split: option.splits)

theorem create_index_inv_witness:
  "index_inv space_jieba new_Index \<and>
   create_index space_jieba (Some (''A b'' @ SEP3 @ ''b c'' @ SEP3 @ ''u'' @ [newline])) new_Index =
     (True, snd (create_index space_jieba (Some (''A b'' @ SEP3 @ ''b c'' @ SEP3 @ ''u'' @ [newline])) new_Index)) \<and>
   index_inv space_jieba (snd (create_index space_jieba (Some (''A b'' @ SEP3 @ ''b c'' @ SEP3 @ ''u'' @ [newline])) new_Index))"
proof -
  let ?i = "Some (''A b'' @ SEP3 @ ''b c'' @ SEP3 @ ''u'' @ [newline])"
  have e: "create_index space_jieba ?i new_Index = (True, snd (create_index space_jieba ?i new_Index))"
    by (simp add: create_index_def)
  show ?thesis using create_index_inv [OF new_Index_inv e] e new_Index_inv by simp
qed

text \<open>C2. Reading a corpus appends to the forward index exactly the
  title/content/url triples of the lines that split into three fields, in file
  order; the result flag is true.\<close>

theorem create_index_forward:
  "fst (create_index ju (Some txt) idx) \<and>
   map doc_fields (forward_index (snd (create_index ju (Some txt) idx))) =
     map doc_fields (forward_index idx) @ List.map_filter record_of_line (getlines txt)"
  by (simp add: create_index_def fold_index_line_fields)

text \<open>C3. Indexing a document changes exactly the posting lists of its
  (case-folded) words: each gets one posting appended at its end, for this
  document, with weight 5 times the word's title count plus its content count;
  the lists of all other words are left as they were.\<close>

theorem posting_weight:
  "inverted_index (create_inverted_index ju d idx) w =
     (if w \<in> doc_terms ju d
      then Some (lookup_default [] (inverted_index idx) w @
                 [\<lparr>item_id = doc_id d, item_word = w,
                   item_weight = int (5 * count_list (map to_lower (CutString ju (title d))) w +
                                      count_list (map to_lower (CutString ju (content d))) w)\<rparr>])
      else inverted_index idx w)"
  using create_inverted_index_at [of ju d idx w]
  by (simp add: doc_weight_def title_terms_def content_terms_def)

text \<open>C6. The order in which the loop visits the keys of \<open>word_cnt\<close> (the
  iteration order of an \<open>unordered_map\<close>) does not change the inverted index.\<close>

theorem add_postings_order:
  assumes "distinct ks" and "distinct ks'" and "set ks = set ks'"
  shows "add_postings did wc ks ii = add_postings did wc ks' ii"
  using assms by (auto simp: add_postings_at)

theorem add_postings_order_witness:
  "distinct [''a'', ''b''] \<and> distinct [''b'', ''a''] \<and> set [''a'', ''b''] = set [''b'', ''a''] \<and>
   add_postings 0 Map.empty [''a'', ''b''] Map.empty = add_postings 0 Map.empty [''b'', ''a''] Map.empty"
  using add_postings_order [of "[''a'', ''b'']" "[''b'', ''a'']" 0 Map.empty Map.empty] by auto

text \<open>C5. In a well-formed index, \<open>get_forward_index\<close> finds a document
  exactly for the ids below the number of documents, and the document it finds
  for id \<open>i\<close> carries id \<open>i\<close>.\<close>

theorem get_forward_index_dense:
  assumes "index_inv ju idx"
  shows "(get_forward_index idx i \<noteq> None \<longleftrightarrow> i < length (forward_index idx)) \<and>
         (\<forall>d. get_forward_index idx i = Some d \<longrightarrow> doc_id d = i)"
  using assms by (auto simp: get_forward_index_def index_inv_def ids_dense_def)

theorem get_forward_index_dense_witness:
  "index_inv space_jieba (snd (create_index space_jieba (Some (''A b'' @ SEP3 @ ''b c'' @ SEP3 @ ''u'' @ [newline])) new_Index)) \<and>
   get_forward_index (snd (create_index space_jieba (Some (''A b'' @ SEP3 @ ''b c'' @ SEP3 @ ''u'' @ [newline])) new_Index)) 0 \<noteq> None \<and>
   get_forward_index (snd (create_index space_jieba (Some (''A b'' @ SEP3 @ ''b c'' @ SEP3 @ ''u'' @ [newline])) new_Index)) 1 = None"
proof -
  let ?x = "snd (create_index space_jieba (Some (''A b'' @ SEP3 @ ''b c'' @ SEP3 @ ''u'' @ [newline])) new_Index)"
  have inv: "index_inv space_jieba ?x"
    by (simp add: create_index_def fold_index_line_inv new_Index_inv)
  have len: "length (forward_index ?x) = 1" by code_simp
  show ?thesis
    using inv len get_forward_index_dense [OF inv, of 0] get_forward_index_dense [OF inv, of 1] by simp
qed

text \<open>C8. \<open>create_index\<close> does not reset the index: running it a second time
  on the same corpus appends every document a second time, under new ids.\<close>

theorem create_index_twice:
  "length (forward_index (snd (create_index ju (Some txt) (snd (create_index ju (Some txt) idx))))) =
     length (forward_index idx) + 2 * length (List.map_filter record_of_line (getlines txt))"
  by (simp add: create_index_def length_fold_index_line)

end
