(* ===== verification/Searcher.thy ===== *)
theory Searcher
  imports Index "HOL-Library.AList" "HOL-Library.Product_Lexorder"
begin

text \<open>
  Model of \<open>src/searcher.hpp\<close>: the class \<open>InvertedElemPrint\<close> (a
  candidate document with its summed weight and the words that hit it), the
  query pipeline of \<open>Searcher::search\<close> (tokenise, look up each word's
  posting list, sum the weights per document, sort by weight, fetch each
  document and cut its snippet) and the snippet functions \<open>GetDesc\<close> and
  \<open>GetDescWithHighlight\<close>. The result is the list of objects that
  \<open>search\<close> appends to its JSON array, before serialisation; a C++
  exception (from \<open>substr\<close> or \<open>replace\<close>) would propagate out of
  \<open>search\<close> and is the \<open>Inl\<close> value of the result.
\<close>

section \<open>Data\<close>

record inverted_elem_print =
  elem_id :: nat
  elem_weight :: int
  words :: "string list"

definition elem0 :: inverted_elem_print where
  "elem0 = \<lparr>elem_id = 0, elem_weight = 0, words = []\<rparr>"

text \<open>The per-query map \<open>cnt\<close> from document id to candidate: an
  association list with one entry per key. \<open>AList.update\<close> changes an entry
  in place and appends a new key at the end, so iterating over it visits the
  candidates in the order of their first hit, one admissible iteration order of
  the \<open>unordered_map\<close>; the ranking theorems below hold for every order.\<close>

type_synonym cnt_map = "(nat \<times> inverted_elem_print) list"

text \<open>One JSON object of the answer: \<open>title\<close>, \<open>content\<close> (the snippet)
  and \<open>url\<close>.\<close>

record search_result =
  r_title :: string
  r_content :: string
  r_url :: string

section \<open>Aggregation\<close>

text \<open>The body of the inner loop: \<open>cnt[item.id_]\<close> (a default candidate
  when absent), then the id is set, the weight added and the word appended.\<close>

definition add_item :: "inverted_item \<Rightarrow> cnt_map \<Rightarrow> cnt_map" where
  "add_item item cnt =
     (let e = (case map_of cnt (item_id item) of None \<Rightarrow> elem0 | Some e \<Rightarrow> e)
      in AList.update (item_id item)
           (e\<lparr>elem_id := item_id item, elem_weight := elem_weight e + item_weight item,
              words := words e @ [item_word item]\<rparr>) cnt)"

text \<open>The outer loop over the query's words: each is case-folded and looked
  up; a word without a posting list is skipped.\<close>

definition collect :: "index \<Rightarrow> string list \<Rightarrow> cnt_map \<Rightarrow> cnt_map" where
  "collect idx ws cnt0 =
     fold (\<lambda>word cnt. case get_inverted_index idx (to_lower word) of
                        None \<Rightarrow> cnt
                      | Some l \<Rightarrow> fold add_item l cnt) ws cnt0"

section \<open>Ranking\<close>

text \<open>\<open>std::sort\<close> with the comparison \<open>a.weight_ > b.weight_\<close>. The
  standard fixes the result only up to the order of candidates of equal weight;
  the model takes the stable sort, one of the results \<open>std::sort\<close> may give.
  \<open>sort_contract\<close> is what the standard does promise of any result.\<close>

definition rank :: "inverted_elem_print list \<Rightarrow> inverted_elem_print list" where
  "rank xs = sort_key (\<lambda>e. - elem_weight e) xs"

definition sort_contract :: "inverted_elem_print list \<Rightarrow> inverted_elem_print list \<Rightarrow> bool" where
  "sort_contract xs ys \<longleftrightarrow>
     mset ys = mset xs \<and> sorted_wrt (\<lambda>a b. elem_weight b \<le> elem_weight a) ys"

text \<open>The ranking the specification asks for (section 4.2, step 5): weight
  descending, ties by ascending document id.\<close>

definition rank_spec :: "inverted_elem_print list \<Rightarrow> inverted_elem_print list" where
  "rank_spec xs = sort_key (\<lambda>e. (- elem_weight e, elem_id e)) xs"

section \<open>Snippets\<close>

text \<open>\<open>GetDescWithHighlight\<close>. Without words, or when the first word does
  not occur in the body (case-insensitive \<open>std::search\<close>), the first 150
  bytes and \<open>"..."\<close>. Otherwise the window from 50 bytes before the match to
  100 bytes after its end, clipped to the body; the first literal occurrence of
  the word in the window is wrapped in \<open><em>\<close>...\<open></em>\<close>; the window is
  framed by \<open>"..."\<close> on both sides.\<close>

definition prev_step :: nat where "prev_step = 50"
definition next_step :: nat where "next_step = 100"

definition highlight :: "string \<Rightarrow> string \<Rightarrow> string cpp" where
  "highlight desc w =
     (case str_find desc w of
        None \<Rightarrow> Inr desc
      | Some p \<Rightarrow> str_replace desc p (length w) (''<em>'' @ w @ ''</em>''))"

text \<open>The window is computed on \<open>int\<close>s: \<open>pos\<close> is the match offset
  (\<open>std::distance\<close> stored in an \<open>int\<close>, exact for bodies shorter than
  \<open>2^31\<close> bytes) and \<open>start\<close> is guarded against going negative. The end
  is computed in \<open>size_t\<close> (\<open>pos + first_word.length()\<close> is unsigned) and
  stored in an \<open>int\<close>. \<open>substr\<close> takes \<open>size_t\<close> arguments:
  \<open>size_t_of_int\<close> is the conversion of an \<open>int\<close>, which maps a negative
  value \<open>x\<close> to \<open>x + 2^64\<close>.\<close>

definition window_start :: "int \<Rightarrow> int" where
  "window_start pos = (if int prev_step < pos then pos - int prev_step else 0)"

definition window_end :: "nat \<Rightarrow> nat \<Rightarrow> nat \<Rightarrow> nat" where
  "window_end pos wl n = (if pos + wl + next_step < n then pos + wl + next_step else n)"

definition size_t_of_int :: "int \<Rightarrow> nat" where
  "size_t_of_int x = (if x < 0 then nat (x + 2 ^ 64) else nat x)"

definition GetDescWithHighlight :: "string \<Rightarrow> string list \<Rightarrow> string cpp" where
  "GetDescWithHighlight html ws =
     (if ws = [] then cpp_bind (substr html 0 150) (\<lambda>s. Inr (s @ ''...''))
      else
        let first_word = hd ws;
            p = std_search ci_eq first_word html
        in if p = length html then cpp_bind (substr html 0 150) (\<lambda>s. Inr (s @ ''...''))
           else
             let pos = int p;
                 start = window_start pos;
                 end_pos = int (window_end p (length first_word) (length html))
             in cpp_bind (substr html (size_t_of_int start) (size_t_of_int (end_pos - start))) (\<lambda>desc.
                  cpp_bind (highlight desc first_word) (\<lambda>desc'.
                    Inr (''...'' @ desc' @ ''...''))))"

text \<open>\<open>GetDesc\<close>, the earlier snippet function (its call in \<open>search\<close> is
  commented out). Its positions are \<open>int\<close>s: \<open>end\<close> starts at
  \<open>size() - 1\<close>, which is exact for contents shorter than \<open>2^31\<close> bytes.\<close>

definition GetDesc :: "string \<Rightarrow> string \<Rightarrow> string cpp" where
  "GetDesc html_content word =
     (let p = std_search ci_eq word html_content in
      if p = length html_content then Inr ''None1''
      else
        let pos = int p;
            start0 = (0 :: int);
            end0 = int (length html_content) - 1;
            start = (if pos > start0 + int prev_step then pos - int prev_step else start0);
            end_pos = (if pos < end0 - int next_step then pos + int next_step else end0)
        in if start \<ge> end_pos then Inr ''None2''
           else cpp_bind (substr html_content (nat start) (nat (end_pos - start))) (\<lambda>desc. Inr (desc @ ''...'')))"

section \<open>\<open>search\<close>\<close>

text \<open>The output loop: a candidate whose document is missing is skipped;
  otherwise one object is appended.\<close>

fun emit :: "index \<Rightarrow> inverted_elem_print list \<Rightarrow> search_result list cpp" where
  "emit idx [] = Inr []"
| "emit idx (e # es) =
     (case get_forward_index idx (elem_id e) of
        None \<Rightarrow> emit idx es
      | Some d \<Rightarrow>
          cpp_bind (GetDescWithHighlight (content d) (words e)) (\<lambda>snip.
            cpp_bind (emit idx es) (\<lambda>rs.
              Inr (\<lparr>r_title = title d, r_content = snip, r_url = url d\<rparr> # rs))))"

definition search :: "jieba_util \<Rightarrow> index \<Rightarrow> string \<Rightarrow> search_result list cpp" where
  "search ju idx query =
     (let ws = CutString ju query;
          cnt = collect idx ws [];
          inverted_all = map snd cnt
      in emit idx (rank inverted_all))"

text \<open>\<open>init_search\<close>: the searcher's index is the singleton's, and
  \<open>create_index\<close> builds it from the corpus file; its result (false when the
  file cannot be opened) is ignored.\<close>

definition init_search :: "jieba_util \<Rightarrow> string option \<Rightarrow> index \<Rightarrow> index" where
  "init_search ju input idx = snd (create_index ju input idx)"

section \<open>What the query engine should compute\<close>

text \<open>The postings that a query's words (case-folded, duplicates kept) hit for
  document \<open>i\<close>, in query order; the candidate they make when merged into an
  existing entry; the snippet with its first literal occurrence emphasised;
  the object \<open>search\<close> emits for a candidate whose document exists.\<close>

definition hits :: "index \<Rightarrow> string list \<Rightarrow> nat \<Rightarrow> inverted_item list" where
  "hits idx ws i =
     concat (map (\<lambda>w. filter (\<lambda>p. item_id p = i) (lookup_default [] (inverted_index idx) (to_lower w))) ws)"

definition merge_hits :: "inverted_elem_print option \<Rightarrow> nat \<Rightarrow> inverted_item list \<Rightarrow> inverted_elem_print option" where
  "merge_hits e0 i hs =
     (if hs = [] then e0
      else let e = (case e0 of None \<Rightarrow> elem0 | Some e \<Rightarrow> e) in
        Some \<lparr>elem_id = i, elem_weight = elem_weight e + sum_list (map item_weight hs),
              words = words e @ map item_word hs\<rparr>)"

definition emphasize :: "string \<Rightarrow> string \<Rightarrow> string" where
  "emphasize desc w =
     (case str_find desc w of
        None \<Rightarrow> desc
      | Some p \<Rightarrow> take p desc @ ''<em>'' @ w @ ''</em>'' @ drop (p + length w) desc)"

definition result_of :: "index \<Rightarrow> inverted_elem_print \<Rightarrow> search_result" where
  "result_of idx e =
     (let d = forward_index idx ! elem_id e
      in \<lparr>r_title = title d, r_content = projr (GetDescWithHighlight (content d) (words e)),
          r_url = url d\<rparr>)"

section \<open>Examples\<close>


definition body500 :: string where
  "body500 = replicate 80 CHR ''x'' @ ''Foo'' @ replicate 417 CHR ''x''"

definition corpus2 :: string where
  "corpus2 = ''Foo guide'' @ SEP3 @ ''intro text'' @ SEP3 @ ''u1'' @ [newline] @
             ''Other'' @ SEP3 @ ''use foo here'' @ SEP3 @ ''u2'' @ [newline]"

definition idx2 :: index where
  "idx2 = snd (create_index space_jieba (Some corpus2) new_Index)"

section \<open>Lemmas\<close>

lemma map_of_add_item:
  "map_of (add_item p cnt) i =
     (if item_id p = i then merge_hits (map_of cnt i) i [p] else map_of cnt i)"
  by (simp add: add_item_def merge_hits_def update_conv' split: option.split)

lemma merge_hits_append:
  "merge_hits (merge_hits e0 i hs) i hs' = merge_hits e0 i (hs @ hs')"
  by (auto simp: merge_hits_def Let_def split: option.split)

lemma map_of_fold_add_item:
  "map_of (fold add_item ps cnt) i = merge_hits (map_of cnt i) i (filter (\<lambda>p. item_id p = i) ps)"
proof (induction ps arbitrary: cnt)
  case Nil
  then show ?case by (simp add: merge_hits_def)
next
  case (Cons p ps)
  show ?case
    by (simp add: Cons.IH map_of_add_item merge_hits_append)
qed

lemma map_of_collect:
  "map_of (collect idx ws cnt) i = merge_hits (map_of cnt i) i (hits idx ws i)"
proof (induction ws arbitrary: cnt)
  case Nil
  then show ?case by (simp add: collect_def hits_def merge_hits_def)
next
  case (Cons w ws)
  have step: "map_of (case get_inverted_index idx (to_lower w) of None \<Rightarrow> cnt | Some l \<Rightarrow> fold add_item l cnt) i
     = merge_hits (map_of cnt i) i (filter (\<lambda>p. item_id p = i) (lookup_default [] (inverted_index idx) (to_lower w)))"
    by (auto simp: get_inverted_index_def map_of_fold_add_item merge_hits_def lookup_default_def split: option.split)
  from Cons.IH show ?case
    by (simp add: collect_def hits_def step merge_hits_append)
qed

lemma distinct_collect: "distinct (map fst cnt) \<Longrightarrow> distinct (map fst (collect idx ws cnt))"
proof -
  have add: "\<And>ps cnt. distinct (map fst cnt) \<Longrightarrow> distinct (map fst (fold add_item ps cnt))"
  proof -
    fix ps and cnt :: cnt_map
    show "distinct (map fst cnt) \<Longrightarrow> distinct (map fst (fold add_item ps cnt))"
      by (induction ps arbitrary: cnt) (simp_all add: add_item_def Let_def distinct_update)
  qed
  show "distinct (map fst cnt) \<Longrightarrow> distinct (map fst (collect idx ws cnt))"
    unfolding collect_def
    by (induction ws arbitrary: cnt) (auto simp: add split: option.split)
qed

lemma collect_member:
  assumes "e \<in> set (map snd (collect idx ws []))"
  shows "map_of (collect idx ws []) (elem_id e) = Some e \<and> hits idx ws (elem_id e) \<noteq> []"
proof -
  from assms obtain k where ke: "(k, e) \<in> set (collect idx ws [])" by auto
  have "distinct (map fst (collect idx ws []))" by (simp add: distinct_collect)
  with ke have m: "map_of (collect idx ws []) k = Some e" by (simp add: map_of_is_SomeI)
  then have "hits idx ws k \<noteq> [] \<and> elem_id e = k"
    by (auto simp: map_of_collect merge_hits_def Let_def split: if_splits)
  with m show ?thesis by simp
qed

lemma sorted_neg_weight:
  "sorted (map (\<lambda>e. - elem_weight e) ys) \<longleftrightarrow> sorted_wrt (\<lambda>a b. elem_weight b \<le> elem_weight a) ys"
  by (simp add: sorted_map)

lemma rank_contract: "sort_contract xs (rank xs)"
proof -
  have "sorted (map (\<lambda>e. - elem_weight e) (rank xs))"
    unfolding rank_def by (rule sorted_sort_key)
  then show ?thesis by (simp add: sort_contract_def rank_def sorted_neg_weight)
qed

lemma rank_spec_contract: "sort_contract xs (rank_spec xs)"
proof -
  have "sorted (map (\<lambda>e. (- elem_weight e, elem_id e)) (rank_spec xs))"
    unfolding rank_spec_def by (rule sorted_sort_key)
  then have "sorted_wrt (\<lambda>a b. (- elem_weight a, elem_id a) \<le> (- elem_weight b, elem_id b)) (rank_spec xs)"
    by (simp add: sorted_map)
  then have "sorted_wrt (\<lambda>a b. elem_weight b \<le> elem_weight a) (rank_spec xs)"
    by (rule sorted_wrt_mono_rel [rotated]) (auto simp: less_eq_prod_def)
  then show ?thesis by (simp add: sort_contract_def rank_spec_def)
qed

lemma sort_contract_weights:
  assumes "sort_contract xs ys"
  shows "map (\<lambda>e. - elem_weight e) ys = sort (map (\<lambda>e. - elem_weight e) xs)"
proof -
  from assms have m: "mset ys = mset xs"
    and s: "sorted (map (\<lambda>e. - elem_weight e) ys)"
    by (simp_all add: sort_contract_def sorted_neg_weight)
  from m have "mset (map (\<lambda>e. - elem_weight e) ys) = mset (map (\<lambda>e. - elem_weight e) xs)"
    by (simp only: mset_map)
  from properties_for_sort [OF this s] show ?thesis by simp
qed

lemma sort_contract_same_weights:
  assumes "sort_contract xs ys" and "sort_contract xs zs"
  shows "map elem_weight ys = map elem_weight zs"
proof -
  from assms have "map (\<lambda>e. - elem_weight e) ys = map (\<lambda>e. - elem_weight e) zs"
    by (simp add: sort_contract_weights)
  then have "map uminus (map (\<lambda>e. - elem_weight e) ys) = map uminus (map (\<lambda>e. - elem_weight e) zs)"
    by simp
  then show ?thesis by (simp add: comp_def)
qed

lemma highlight_ok: "highlight desc w = Inr (emphasize desc w)"
proof (cases "str_find desc w")
  case None
  then show ?thesis by (simp add: highlight_def emphasize_def)
next
  case (Some p)
  then have "p + length w \<le> length desc" by (rule str_find_match)
  with Some show ?thesis by (simp add: highlight_def emphasize_def str_replace_def)
qed

lemma window_start_eq: "window_start (int p) = int (p - 50)"
  by (simp add: window_start_def prev_step_def)

lemma size_t_of_int_nat [simp]: "size_t_of_int (int n) = n"
  by (simp add: size_t_of_int_def)

lemma window_end_eq: "window_end pos wl n = min n (pos + wl + 100)"
  by (simp add: window_end_def next_step_def)

lemma GetDescWithHighlight_found:
  assumes "std_search ci_eq w html = p" and "p < length html"
  shows "GetDescWithHighlight html (w # ws) =
           cpp_bind (substr html (p - 50) (window_end p (length w) (length html) - (p - 50))) (\<lambda>desc.
             cpp_bind (highlight desc w) (\<lambda>desc'. Inr (''...'' @ desc' @ ''...'')))"
proof -
  let ?e = "window_end p (length w) (length html)"
  have "p \<le> ?e" using assms(2) by (simp add: window_end_eq)
  then have d: "size_t_of_int (int ?e - window_start (int p)) = ?e - (p - 50)"
    by (simp only: window_start_eq of_nat_diff [symmetric] size_t_of_int_nat)
  have s: "size_t_of_int (window_start (int p)) = p - 50" by (simp only: window_start_eq size_t_of_int_nat)
  have ne: "p \<noteq> length html" using assms(2) by simp
  show ?thesis unfolding GetDescWithHighlight_def Let_def using assms(1) ne d s by simp
qed

lemma GetDesc_Inr: "\<exists>s. GetDescWithHighlight html ws = Inr s"
proof (cases ws)
  case Nil
  then show ?thesis by (simp add: GetDescWithHighlight_def substr_def)
next
  case (Cons w ws')
  show ?thesis
  proof (cases "std_search ci_eq w html < length html")
    case True
    then show ?thesis
      using GetDescWithHighlight_found [OF refl True, of ws'] Cons by (simp add: substr_def highlight_ok)
  next
    case False
    then have "std_search ci_eq w html = length html" using std_search_le [of ci_eq w html] by simp
    then show ?thesis using Cons by (simp add: GetDescWithHighlight_def substr_def)
  qed
qed

lemma emit_eq:
  "emit idx es = Inr (map (result_of idx) (filter (\<lambda>e. elem_id e < length (forward_index idx)) es))"
proof (induction es)
  case Nil
  then show ?case by simp
next
  case (Cons e es)
  obtain s where "GetDescWithHighlight (content (forward_index idx ! elem_id e)) (words e) = Inr s"
    using GetDesc_Inr by blast
  with Cons show ?case by (simp add: get_forward_index_def result_of_def Let_def)
qed

lemma lookup_default_nonempty:
  "p \<in> set (lookup_default [] m k) \<Longrightarrow> \<exists>ps. m k = Some ps \<and> p \<in> set ps"
  by (cases "m k") (auto simp: lookup_default_def)

lemma collect_ids_valid:
  assumes "postings_sound ju idx" and "e \<in> set (map snd (collect idx ws []))"
  shows "elem_id e < length (forward_index idx)"
proof -
  from assms(2) have "hits idx ws (elem_id e) \<noteq> []" by (simp add: collect_member)
  then obtain w p where "p \<in> set (lookup_default [] (inverted_index idx) (to_lower w))"
    and pid: "item_id p = elem_id e"
    by (auto simp: hits_def filter_empty_conv)
  then obtain ps where "inverted_index idx (to_lower w) = Some ps" "p \<in> set ps"
    using lookup_default_nonempty by metis
  with assms(1) have "item_id p < length (forward_index idx)"
    unfolding postings_sound_def posting_ok_def by blast
  with pid show ?thesis by simp
qed

lemma collect_key:
  assumes "(k, e) \<in> set (collect idx ws [])"
  shows "elem_id e = k"
proof -
  have "distinct (map fst (collect idx ws []))" by (simp add: distinct_collect)
  with assms have "map_of (collect idx ws []) k = Some e" by (simp add: map_of_is_SomeI)
  then show ?thesis by (auto simp: map_of_collect merge_hits_def Let_def split: if_splits)
qed

lemma distinct_collect_ids: "distinct (map elem_id (map snd (collect idx ws [])))"
proof -
  have "map elem_id (map snd (collect idx ws [])) = map fst (collect idx ws [])"
    unfolding map_map by (rule map_cong [OF refl]) (metis collect_key comp_apply prod.collapse)
  moreover have "distinct (map fst (collect idx ws []))" using distinct_collect [of "[]" idx ws] by simp
  ultimately show ?thesis by (simp only:)
qed

lemma collect_ids: "set (map elem_id (map snd (collect idx ws []))) = {i. hits idx ws i \<noteq> []}"
proof
  show "set (map elem_id (map snd (collect idx ws []))) \<subseteq> {i. hits idx ws i \<noteq> []}"
    using collect_member by fastforce
  show "{i. hits idx ws i \<noteq> []} \<subseteq> set (map elem_id (map snd (collect idx ws [])))"
  proof
    fix i assume "i \<in> {i. hits idx ws i \<noteq> []}"
    then have "map_of (collect idx ws []) i =
                 Some \<lparr>elem_id = i, elem_weight = sum_list (map item_weight (hits idx ws i)),
                       words = map item_word (hits idx ws i)\<rparr>"
      by (simp add: map_of_collect merge_hits_def elem0_def)
    then have "(i, \<lparr>elem_id = i, elem_weight = sum_list (map item_weight (hits idx ws i)),
                 words = map item_word (hits idx ws i)\<rparr>) \<in> set (collect idx ws [])"
      by (rule map_of_SomeD)
    then show "i \<in> set (map elem_id (map snd (collect idx ws [])))" by force
  qed
qed

lemma hits_nonempty_iff:
  assumes "index_inv ju idx"
  shows "hits idx ws i \<noteq> [] \<longleftrightarrow>
           i < length (forward_index idx) \<and> (\<exists>w \<in> set ws. to_lower w \<in> doc_terms ju (forward_index idx ! i))"
proof
  assume "hits idx ws i \<noteq> []"
  then obtain w p where w: "w \<in> set ws" and p: "p \<in> set (lookup_default [] (inverted_index idx) (to_lower w))"
    and pid: "item_id p = i"
    by (auto simp: hits_def filter_empty_conv)
  then obtain ps where "inverted_index idx (to_lower w) = Some ps" "p \<in> set ps"
    using lookup_default_nonempty by metis
  with assms have "posting_ok ju (forward_index idx) (to_lower w) p"
    unfolding index_inv_def postings_sound_def by blast
  with w pid show "i < length (forward_index idx) \<and> (\<exists>w \<in> set ws. to_lower w \<in> doc_terms ju (forward_index idx ! i))"
    unfolding posting_ok_def by blast
next
  assume "i < length (forward_index idx) \<and> (\<exists>w \<in> set ws. to_lower w \<in> doc_terms ju (forward_index idx ! i))"
  then obtain w where i: "i < length (forward_index idx)" and w: "w \<in> set ws"
    and t: "to_lower w \<in> doc_terms ju (forward_index idx ! i)" by blast
  obtain ps where ps: "inverted_index idx (to_lower w) = Some ps" and "i \<in> set (map item_id ps)"
    using assms i t unfolding index_inv_def postings_complete_def by blast
  then obtain p where "p \<in> set ps" "item_id p = i" by auto
  with ps have "p \<in> set (filter (\<lambda>p. item_id p = i) (lookup_default [] (inverted_index idx) (to_lower w)))"
    by (simp add: lookup_default_def)
  then have "p \<in> set (hits idx ws i)" by (auto simp: hits_def intro!: bexI [OF _ w])
  then show "hits idx ws i \<noteq> []" by auto
qed

lemma search_eq:
  "search ju idx q = emit idx (rank (map snd (collect idx (CutString ju q) [])))"
  by (simp add: search_def)

lemma collect_none:
  "\<forall>w \<in> set ws. get_inverted_index idx (to_lower w) = None \<Longrightarrow> collect idx ws cnt = cnt"
  unfolding collect_def by (induction ws arbitrary: cnt) auto

lemma idx2_inv: "index_inv space_jieba idx2"
  by (simp add: idx2_def create_index_def fold_index_line_inv new_Index_inv)

lemma GetDesc_window:
  assumes "p = std_search ci_eq w html" and plt: "p < length html" and two: "2 \<le> length html"
  shows "GetDesc html w =
           Inr (take (min (p + 100) (length html - 1) - (p - 50)) (drop (p - 50) html) @ ''...'')"
proof -
  note p_def = assms(1)
  have n: "nat (49 + (int (length html) - int p)) = 49 + length html - p"
    using plt by (simp add: nat_eq_iff of_nat_diff)
  show ?thesis
  proof (cases "50 < p")
    case True
    have m: "\<not> int p < int (length html) - 101 \<Longrightarrow> p + 100 \<le> length html - 1 \<Longrightarrow>
             49 + length html - p = 150"
      by linarith
    from True show ?thesis using plt two n m
      by (cases "int p < int (length html) - 101")
         (simp_all add: GetDesc_def Let_def p_def [symmetric] prev_step_def next_step_def
            substr_ok nat_diff_distrib min_def split: if_splits)
  next
    case False
    have k: "nat (int p + 100) = p + 100" "nat (int (length html) - 1) = length html - 1"
      using two by simp_all
    have m: "\<not> int p < int (length html) - 101 \<Longrightarrow> p + 100 \<le> length html - 1 \<Longrightarrow>
             length html - 1 = p + 100"
      by linarith
    from False show ?thesis using plt two k m
      by (cases "int p < int (length html) - 101")
         (auto simp: GetDesc_def Let_def p_def [symmetric] prev_step_def next_step_def
            substr_ok min_def split: if_splits)
  qed
qed

lemma GetDesc_examples:
  "GetDesc ''foo bar'' ''bar'' = Inr ''foo ba...''" "GetDesc ''a'' ''A'' = Inr ''None2''"
  by code_simp+

section \<open>Properties of the query engine\<close>

text \<open>C9. On a well-formed index, \<open>search\<close> never throws, and it answers
  one object per candidate document, in ranked order: the document's title and
  url and the snippet of its content around the first word that hit it.\<close>

theorem search_results:
  assumes "index_inv ju idx"
  shows "search ju idx q = Inr (map (result_of idx) (rank (map snd (collect idx (CutString ju q) []))))"
proof -
  let ?es = "rank (map snd (collect idx (CutString ju q) []))"
  from assms have "postings_sound ju idx" by (simp add: index_inv_def)
  then have "\<forall>e \<in> set ?es. elem_id e < length (forward_index idx)"
    using collect_ids_valid by (auto simp: rank_def)
  then show ?thesis by (simp add: search_eq emit_eq)
qed

theorem search_results_witness:
  "index_inv space_jieba idx2 \<and>
   search space_jieba idx2 ''foo'' =
     Inr (map (result_of idx2) (rank (map snd (collect idx2 (CutString space_jieba ''foo'') []))))"
  using idx2_inv search_results [OF idx2_inv] by simp

text \<open>C10. Aggregation: a document is a candidate exactly when some posting of
  some query word names it; its weight is the sum of the weights of those
  postings (a word repeated in the query counts again) and its word list is
  their words in query order, repetitions included.\<close>

theorem collect_scores:
  "map_of (collect idx ws []) i =
     (if hits idx ws i = [] then None
      else Some \<lparr>elem_id = i, elem_weight = sum_list (map item_weight (hits idx ws i)),
                 words = map item_word (hits idx ws i)\<rparr>)"
  by (simp add: map_of_collect merge_hits_def elem0_def)

text \<open>C11. The ranking is a permutation of the candidates sorted by weight,
  highest first, and it has the same sequence of weights as the ranking the
  specification asks for.\<close>

theorem rank_sorted:
  "mset (rank xs) = mset xs \<and> sorted_wrt (\<lambda>a b. elem_weight b \<le> elem_weight a) (rank xs) \<and>
   map elem_weight (rank xs) = map elem_weight (rank_spec xs)"
  using rank_contract [of xs] sort_contract_same_weights [OF rank_contract rank_spec_contract]
  by (simp add: sort_contract_def)




text \<open>C15. \<open>search\<close> never raises: on any index, even one with postings
  that name missing documents, the \<open>substr\<close> and \<open>replace\<close> calls stay in
  range and missing documents are skipped.\<close>

theorem search_never_throws: "\<exists>rs. search ju idx q = Inr rs"
  by (simp add: search_eq emit_eq)

text \<open>C16. The snippet window: when the first word first matches
  (ignoring case) at offset \<open>pos\<close>, the snippet is the body from
  \<open>max 0 (pos - 50)\<close> to \<open>min (length body) (pos + length word + 100)\<close>, with
  the first literal occurrence of the word emphasised, between two \<open>"..."\<close>.\<close>

theorem snippet_window:
  assumes "std_search ci_eq w html = pos" and "pos < length html"
  shows "GetDescWithHighlight html (w # ws) =
           Inr (''...'' @ emphasize (take (min (length html) (pos + length w + 100) - (pos - 50))
                                        (drop (pos - 50) html)) w @ ''...'')"
  using GetDescWithHighlight_found [OF assms] assms by (simp add: substr_def highlight_ok window_end_eq)

theorem snippet_window_witness:
  "std_search ci_eq ''foo'' body500 = 80 \<and> 80 < length body500 \<and>
   GetDescWithHighlight body500 [''foo''] =
     Inr (''...'' @ emphasize (take (min 500 183 - 30) (drop 30 body500)) ''foo'' @ ''...'')"
proof -
  have h1: "std_search ci_eq ''foo'' body500 = 80" by code_simp
  have h2: "80 < length body500" by (simp add: body500_def)
  have l: "length body500 = 500" by (simp add: body500_def)
  show ?thesis using h1 h2 snippet_window [OF h1 h2, of "[]"] l by simp
qed

text \<open>C17. Without words, or when the first word does not occur in the body,
  the snippet is the first 150 bytes followed by \<open>"..."\<close>, also when the
  body is shorter than 150 bytes.\<close>

theorem snippet_fallback:
  assumes "ws = [] \<or> std_search ci_eq (hd ws) html = length html"
  shows "GetDescWithHighlight html ws = Inr (take 150 html @ ''...'')"
  using assms by (auto simp: GetDescWithHighlight_def substr_def)

theorem snippet_fallback_witness:
  "([] = [] \<or> std_search ci_eq (hd []) ''short body'' = length ''short body'') \<and>
   GetDescWithHighlight ''short body'' [] = Inr ''short body...''"
  using snippet_fallback [of "[]" "''short body''"] by simp

text \<open>C18. On a well-formed index, \<open>search\<close> answers with one object per
  document, each document at most once, and the documents answered are
  exactly those that contain (case-folded) one of the query's words in their
  title or content.\<close>

theorem search_hits_exactly:
  assumes "index_inv ju idx"
  shows "\<exists>es. search ju idx q = Inr (map (result_of idx) es) \<and> distinct (map elem_id es) \<and>
           set (map elem_id es) = {i. i < length (forward_index idx) \<and>
              (\<exists>w \<in> set (CutString ju q). to_lower w \<in> doc_terms ju (forward_index idx ! i))}"
proof -
  let ?xs = "map snd (collect idx (CutString ju q) [])"
  have "mset (rank ?xs) = mset ?xs" using rank_contract [of ?xs] unfolding sort_contract_def by blast
  then have ms: "mset (map elem_id (rank ?xs)) = mset (map elem_id ?xs)" by (simp only: mset_map)
  from assms have "postings_sound ju idx" by (simp add: index_inv_def)
  then have "\<forall>e \<in> set (rank ?xs). elem_id e < length (forward_index idx)"
    using collect_ids_valid by (auto simp: rank_def)
  then have "search ju idx q = Inr (map (result_of idx) (rank ?xs))" by (simp add: search_eq emit_eq)
  moreover have "distinct (map elem_id (rank ?xs))"
    using distinct_collect_ids mset_eq_imp_distinct_iff [OF ms] by simp
  moreover have "set (map elem_id (rank ?xs)) = set (map elem_id ?xs)"
    using arg_cong [OF ms, of set_mset] by simp
  ultimately show ?thesis
    using collect_ids [of idx "CutString ju q"] hits_nonempty_iff [OF assms] by auto
qed

theorem search_hits_exactly_witness:
  "index_inv space_jieba idx2 \<and>
   (\<exists>es. search space_jieba idx2 ''foo'' = Inr (map (result_of idx2) es) \<and> distinct (map elem_id es) \<and>
        set (map elem_id es) = {0, 1})"
proof -
  have c: "CutString space_jieba ''foo'' = [''foo'']" by code_simp
  have l: "length (forward_index idx2) = 2" by code_simp
  have t: "to_lower ''foo'' \<in> doc_terms space_jieba (forward_index idx2 ! 0)"
    "to_lower ''foo'' \<in> doc_terms space_jieba (forward_index idx2 ! 1)" by code_simp+
  have s: "{i. i < length (forward_index idx2) \<and>
              (\<exists>w \<in> set (CutString space_jieba ''foo''). to_lower w \<in> doc_terms space_jieba (forward_index idx2 ! i))}
           = {0, 1}"
  proof
    show "{0, 1} \<subseteq> {i. i < length (forward_index idx2) \<and>
              (\<exists>w \<in> set (CutString space_jieba ''foo''). to_lower w \<in> doc_terms space_jieba (forward_index idx2 ! i))}"
      using t by (simp add: c l)
  next
    show "{i. i < length (forward_index idx2) \<and>
              (\<exists>w \<in> set (CutString space_jieba ''foo''). to_lower w \<in> doc_terms space_jieba (forward_index idx2 ! i))} \<subseteq> {0, 1}"
      by (auto simp only: l)
  qed
  show ?thesis using idx2_inv search_hits_exactly [OF idx2_inv, of "''foo''"] by (simp only: s)
qed

text \<open>C35. \<open>GetDesc\<close> answers \<open>None1\<close> when the word does not occur
  (case-insensitively), \<open>None2\<close> when it occurs in a one-byte content, and
  otherwise up to 50 bytes before and 100 bytes from the match followed by
  \<open>...\<close>, but never the last byte of the content: \<open>end\<close> starts at
  \<open>size() - 1\<close> and is used as an exclusive bound.\<close>

theorem GetDesc_eq:
  "GetDesc html w =
     (let p = std_search ci_eq w html in
      if p = length html then Inr ''None1''
      else if length html = 1 then Inr ''None2''
      else Inr (take (min (p + 100) (length html - 1) - (p - 50)) (drop (p - 50) html) @ ''...''))"
proof (cases "std_search ci_eq w html = length html")
  case True
  then show ?thesis by (simp add: GetDesc_def)
next
  case False
  then have lt: "std_search ci_eq w html < length html"
    using std_search_le [of ci_eq w html] by linarith
  show ?thesis
  proof (cases "length html = 1")
    case True
    with lt show ?thesis by (simp add: GetDesc_def prev_step_def next_step_def)
  next
    case False
    with lt have "2 \<le> length html" by linarith
    with lt False show ?thesis using GetDesc_window [OF refl lt] by (simp add: Let_def)
  qed
qed

end
