(* ===== verification/Server.thy ===== *)
theory Server
  imports Searcher "HOL-Library.Char_ord" "HOL-Library.List_Lexorder"
begin

text \<open>
  Model of the answer's JSON text (the end of \<open>Searcher::search\<close> in
  \<open>src/searcher.hpp\<close>) and of \<open>src/http_server.cc\<close>: the \<open>/s\<close> handler and
  \<open>main\<close>, which builds the index once and then answers requests. The
  \<open>Json::Value\<close> the code builds is the datatype \<open>json\<close>;
  \<open>Json::FastWriter\<close> (a library) is written out from the jsoncpp
  documentation: \<open>null\<close>, arrays and objects without spaces, object members
  in the order of their keys (a \<open>std::map\<close>), a line feed at the end. Its
  string quoting (escapes, and \<open>\u\<close> sequences for non-ASCII text) is the
  parameter \<open>q\<close>, so every theorem holds for every quoting. cpp-httplib's
  request parameters are the list of name/value pairs in the order of its
  multimap; \<open>get_param_value\<close> returns the first value of a name. The
  requests are answered one after the other; the searcher only reads the
  index. The \<open>LOG\<close> calls (of the handler and of the index lookups) only
  write to the log and are left out here; \<open>Log\<close> models one such call.
\<close>

section \<open>JSON values\<close>

datatype json = JNull | JString string | JArray "json list" | JObject "(string \<times> json) list"

text \<open>\<open>value[key] = v\<close> on a null or object value (the only kinds the code
  indexes): a null value becomes an object.\<close>

fun json_set :: "string \<Rightarrow> json \<Rightarrow> json \<Rightarrow> json" where
  "json_set k v JNull = JObject [(k, v)]"
| "json_set k v (JObject kvs) = JObject (AList.update k v kvs)"

text \<open>\<open>root.append(v)\<close> on a null or array value: a null value becomes an
  array.\<close>

fun json_append :: "json \<Rightarrow> json \<Rightarrow> json" where
  "json_append v JNull = JArray [v]"
| "json_append v (JArray vs) = JArray (vs @ [v])"

text \<open>The loop body of the output loop of \<open>search\<close> once the document is
  found: the object with title, snippet and url.\<close>

definition json_of_result :: "search_result \<Rightarrow> json" where
  "json_of_result r =
     json_set ''url'' (JString (r_url r))
       (json_set ''content'' (JString (r_content r)) (json_set ''title'' (JString (r_title r)) JNull))"

definition json_root :: "search_result list \<Rightarrow> json" where
  "json_root rs = fold (\<lambda>r root. json_append (json_of_result r) root) rs JNull"

section \<open>\<open>Json::FastWriter\<close>\<close>

text \<open>The members of an array or object, separated by commas.\<close>

fun join_with :: "string \<Rightarrow> string list \<Rightarrow> string" where
  "join_with sep [] = []"
| "join_with sep [x] = x"
| "join_with sep (x # y # zs) = x @ sep @ join_with sep (y # zs)"

fun json_write :: "(string \<Rightarrow> string) \<Rightarrow> json \<Rightarrow> string" where
  "json_write q JNull = ''null''"
| "json_write q (JString s) = q s"
| "json_write q (JArray vs) = ''['' @ join_with '','' (map (json_write q) vs) @ '']''"
| "json_write q (JObject kvs) =
     ''{'' @ join_with '','' (map (\<lambda>(k, v). q k @ '':'' @ json_write q v) (sort_key fst kvs)) @ ''}''"

definition fast_write :: "(string \<Rightarrow> string) \<Rightarrow> json \<Rightarrow> string" where
  "fast_write q v = json_write q v @ [newline]"

text \<open>\<open>search\<close> with its JSON output \<open>json_res\<close>.\<close>

definition search_json :: "jieba_util \<Rightarrow> index \<Rightarrow> (string \<Rightarrow> string) \<Rightarrow> string \<Rightarrow> string cpp" where
  "search_json ju idx q query = cpp_bind (search ju idx query) (\<lambda>rs. Inr (fast_write q (json_root rs)))"

section \<open>The HTTP handler and \<open>main\<close>\<close>

type_synonym params = "(string \<times> string) list"

record response =
  res_body :: string
  res_type :: string

definition has_param :: "params \<Rightarrow> string \<Rightarrow> bool" where
  "has_param ps k \<longleftrightarrow> map_of ps k \<noteq> None"

definition get_param_value :: "params \<Rightarrow> string \<Rightarrow> string" where
  "get_param_value ps k = (case map_of ps k of None \<Rightarrow> [] | Some v \<Rightarrow> v)"

definition handle_search :: "jieba_util \<Rightarrow> index \<Rightarrow> (string \<Rightarrow> string) \<Rightarrow> params \<Rightarrow> response cpp" where
  "handle_search ju idx q ps =
     (if \<not> has_param ps ''query'' then Inr \<lparr>res_body = ''param query is required'', res_type = ''text/plain''\<rparr>
      else
        (let query = get_param_value ps ''query'' in
         cpp_bind (search_json ju idx q query) (\<lambda>json_string.
           Inr \<lparr>res_body = json_string, res_type = ''application/json; charset=utf-8''\<rparr>)))"

text \<open>\<open>main\<close>: the searcher's index is the singleton, created empty and built
  by \<open>init_search\<close> from \<open>raw.txt\<close> (\<^term>\<open>None\<close> when it cannot be opened);
  then the requests are answered in turn. An exception escaping a handler is
  the \<open>Inl\<close> value.\<close>

fun serve :: "jieba_util \<Rightarrow> index \<Rightarrow> (string \<Rightarrow> string) \<Rightarrow> params list \<Rightarrow> response list cpp" where
  "serve ju idx q [] = Inr []"
| "serve ju idx q (ps # pss) =
     cpp_bind (handle_search ju idx q ps) (\<lambda>r. cpp_bind (serve ju idx q pss) (\<lambda>rs. Inr (r # rs)))"

definition server_main :: "jieba_util \<Rightarrow> (string \<Rightarrow> string) \<Rightarrow> string option \<Rightarrow> params list \<Rightarrow> response list cpp" where
  "server_main ju q input reqs = serve ju (init_search ju input new_Index) q reqs"

section \<open>The expected answer\<close>

text \<open>The JSON text of one result, members in key order.\<close>

definition result_text :: "(string \<Rightarrow> string) \<Rightarrow> search_result \<Rightarrow> string" where
  "result_text q r =
     ''{'' @ q ''content'' @ '':'' @ q (r_content r) @ '','' @ q ''title'' @ '':'' @ q (r_title r) @ '','' @
     q ''url'' @ '':'' @ q (r_url r) @ ''}''"

text \<open>The type of the answer: \<open>null\<close>, or a non-empty array of objects
  whose members are the strings \<open>title\<close>, \<open>content\<close> and \<open>url\<close>, in
  insertion order.\<close>

fun is_result_object :: "json \<Rightarrow> bool" where
  "is_result_object (JObject [(k1, JString _), (k2, JString _), (k3, JString _)]) \<longleftrightarrow>
     k1 = ''title'' \<and> k2 = ''content'' \<and> k3 = ''url''"
| "is_result_object _ \<longleftrightarrow> False"

fun answer_typed :: "json \<Rightarrow> bool" where
  "answer_typed JNull \<longleftrightarrow> True"
| "answer_typed (JArray vs) \<longleftrightarrow> vs \<noteq> [] \<and> list_all is_result_object vs"
| "answer_typed _ \<longleftrightarrow> False"

section \<open>Lemmas\<close>

lemma json_of_result_eq:
  "json_of_result r = JObject [(''title'', JString (r_title r)), (''content'', JString (r_content r)), (''url'', JString (r_url r))]"
  by (simp add: json_of_result_def)

lemma json_write_result: "json_write q (json_of_result r) = result_text q r"
  by (simp add: json_of_result_eq result_text_def)

lemma fold_json_append:
  "fold (\<lambda>r root. json_append (json_of_result r) root) rs (JArray vs) = JArray (vs @ map json_of_result rs)"
  by (induction rs arbitrary: vs) auto

lemma json_root_Nil [simp]: "json_root [] = JNull"
  by (simp add: json_root_def)

lemma json_root_Cons: "json_root (r # rs) = JArray (map json_of_result (r # rs))"
  by (simp add: json_root_def fold_json_append)

lemma search_new_Index: "search ju new_Index query = Inr []"
proof -
  have "collect new_Index (CutString ju query) [] = []"
    by (rule collect_none) (simp add: get_inverted_index_def new_Index_def)
  then show ?thesis by (simp add: search_eq rank_def emit_eq)
qed

lemma init_search_None: "init_search ju None idx = idx"
  by (simp add: init_search_def create_index_def)

section \<open>Properties of the answer and the server\<close>

text \<open>C36. When nothing matches, the answer is the text \<open>null\<close> and not the
  empty array \<open>[]\<close> the specification asks for: \<open>root\<close> stays a null
  \<open>Json::Value\<close> when nothing is appended to it.\<close>

theorem search_json_no_hits:
  "search ju idx query = Inr [] \<Longrightarrow> search_json ju idx q query = Inr (''null'' @ [newline])"
  by (simp add: search_json_def fast_write_def)

theorem search_json_no_hits_witness:
  "search space_jieba new_Index ''foo'' = Inr [] \<and>
   search_json space_jieba new_Index id ''foo'' = Inr (''null'' @ [newline])"
proof -
  have h: "search space_jieba new_Index ''foo'' = Inr []" by (rule search_new_Index)
  show ?thesis using h search_json_no_hits [OF h, of id] by simp
qed

text \<open>C37. Otherwise the answer is one JSON array of objects, one per result in
  rank order, each with the members \<open>content\<close>, \<open>title\<close> and \<open>url\<close> in
  that order, followed by a line feed.\<close>

theorem search_json_results:
  assumes "search ju idx query = Inr rs" and "rs \<noteq> []"
  shows "search_json ju idx q query = Inr (''['' @ join_with '','' (map (result_text q) rs) @ '']'' @ [newline])"
proof -
  obtain r rs' where rs: "rs = r # rs'" using assms(2) by (cases rs) auto
  have m: "json_write q \<circ> json_of_result = result_text q"
    by (rule ext) (simp add: json_write_result)
  show ?thesis
    using assms(1) m unfolding rs by (simp add: search_json_def fast_write_def json_root_Cons del: list.map)
qed

theorem search_json_results_witness:
  "search space_jieba idx2 ''foo'' =
     Inr [\<lparr>r_title = ''Foo guide'', r_content = ''intro text...'', r_url = ''u1''\<rparr>,
          \<lparr>r_title = ''Other'', r_content = ''...use <em>foo</em> here...'', r_url = ''u2''\<rparr>] \<and>
   search_json space_jieba idx2 id ''foo'' =
     Inr (''[{content:intro text...,title:Foo guide,url:u1},'' @
          ''{content:...use <em>foo</em> here...,title:Other,url:u2}]'' @ [newline])"
proof -
  have h: "search space_jieba idx2 ''foo'' =
     Inr [\<lparr>r_title = ''Foo guide'', r_content = ''intro text...'', r_url = ''u1''\<rparr>,
          \<lparr>r_title = ''Other'', r_content = ''...use <em>foo</em> here...'', r_url = ''u2''\<rparr>]"
    by code_simp
  have ne: "[\<lparr>r_title = ''Foo guide'', r_content = ''intro text...'', r_url = ''u1''\<rparr>,
          \<lparr>r_title = ''Other'', r_content = ''...use <em>foo</em> here...'', r_url = ''u2''\<rparr>] \<noteq> []"
    by simp
  show ?thesis using h search_json_results [OF h ne, of id] by (simp add: result_text_def)
qed

text \<open>C38. When \<open>raw.txt\<close> cannot be opened, \<open>main\<close> still serves, from an
  empty index: every request with a \<open>query\<close> parameter is answered \<open>null\<close>,
  every other with the plain-text error, and none throws.\<close>

theorem server_main_unreadable:
  "server_main ju q None reqs =
     Inr (map (\<lambda>ps. if has_param ps ''query''
                    then \<lparr>res_body = ''null'' @ [newline], res_type = ''application/json; charset=utf-8''\<rparr>
                    else \<lparr>res_body = ''param query is required'', res_type = ''text/plain''\<rparr>) reqs)"
proof -
  have "serve ju new_Index q reqs = Inr (map (\<lambda>ps. if has_param ps ''query''
                    then \<lparr>res_body = ''null'' @ [newline], res_type = ''application/json; charset=utf-8''\<rparr>
                    else \<lparr>res_body = ''param query is required'', res_type = ''text/plain''\<rparr>) reqs)"
    by (induction reqs) (simp_all add: handle_search_def search_json_def search_new_Index fast_write_def Let_def)
  then show ?thesis by (simp add: server_main_def init_search_None)
qed

text \<open>C7. The JSON value \<open>search\<close> builds is always of the answer's type:
  \<open>null\<close> or a non-empty array of objects with exactly the three string
  members \<open>title\<close>, \<open>content\<close>, \<open>url\<close>.\<close>

theorem json_root_typed: "answer_typed (json_root rs)"
proof (cases rs)
  case Nil
  then show ?thesis by simp
next
  case (Cons r rs')
  then show ?thesis by (simp add: json_root_Cons json_of_result_eq list_all_iff)
qed

end
