(* ===== verification/Singleton.thy ===== *)
theory Singleton
  imports Prelude
begin

text \<open>
  Model of the lazily created singletons \<open>Index::get_instance\<close>
  (\<open>src/index.hpp\<close>, lines 78-87) and \<open>JiebaUtil::get_instance\<close>
  (\<open>src/tools.hpp\<close>, lines 47-60), which follow the same double-checked
  locking pattern:
  \<^verbatim>\<open>
  if (instance == nullptr) {
      mtx.lock();
      if (instance == nullptr) instance = new T();   // JiebaUtil: then
      mtx.unlock();                                  //   instance->InitJiebaUtil();
  }
  return instance;
  \<close>
  Any number of threads (numbered by \<^typ>\<open>nat\<close>) run \<open>get_instance\<close>
  concurrently; a step is one thread executing one statement, and which thread
  moves is left open, so the steps form an inductive relation. Making the
  object ready takes three actions: allocate (counted in \<open>news\<close>), make
  the object ready for use (\<open>built\<close>) and store the pointer (\<open>inst\<close>).
  The order of the last two is the parameter of the relation:
  \<^item> \<open>In_order\<close>: \<open>Index\<close> in program order; \<open>new Index()\<close> constructs the
    object, then the pointer is stored.
  \<^item> \<open>Store_first\<close>: \<open>JiebaUtil\<close> in program order; the pointer is stored
    by \<open>instance = new JiebaUtil()\<close> before \<open>InitJiebaUtil()\<close> loads the
    stop words, so the object is ready only after the store.
  \<^item> \<open>Reordered\<close>: \<open>Index\<close> when the store becomes visible to other
    threads before the construction; the unsynchronised first read of
    \<open>instance\<close> is a data race, so neither the compiler nor the processor
    has to keep the program order. Both orders are then possible.
  The lemmas show safety in program order by an inductive invariant, the
  unsafe interleavings of the other two orders, that every thread can be
  scheduled to return, and that every run is short: each step raises the
  rank \<open>pc_rank\<close> of one thread, so \<open>n\<close> threads make at most
  \<open>6 * n\<close> steps (\<open>dclp_step_among\<close>, \<open>progress\<close>), and a run stops
  only when every thread has returned, since the lock holder is always inside
  its critical section (\<open>holder_critical\<close>).
\<close>

datatype publish_order = In_order | Store_first | Reordered

datatype pc = Start | Wait | Check | Alloc | Publish | LateInit | Unlock | Done

record dclp =
  pcs :: "nat \<Rightarrow> pc"
  holder :: "nat option"
  inst :: bool
  built :: bool
  news :: nat

definition dclp_init :: dclp where
  "dclp_init = \<lparr>pcs = (\<lambda>_. Start), holder = None, inst = False, built = False, news = 0\<rparr>"

inductive dclp_step :: "publish_order \<Rightarrow> dclp \<Rightarrow> dclp \<Rightarrow> bool" for ord :: publish_order where
  read_set: "pcs s i = Start \<Longrightarrow> inst s \<Longrightarrow> dclp_step ord s (s\<lparr>pcs := (pcs s)(i := Done)\<rparr>)"
| read_null: "pcs s i = Start \<Longrightarrow> \<not> inst s \<Longrightarrow> dclp_step ord s (s\<lparr>pcs := (pcs s)(i := Wait)\<rparr>)"
| lock: "pcs s i = Wait \<Longrightarrow> holder s = None \<Longrightarrow>
    dclp_step ord s (s\<lparr>pcs := (pcs s)(i := Check), holder := Some i\<rparr>)"
| recheck_set: "pcs s i = Check \<Longrightarrow> inst s \<Longrightarrow> dclp_step ord s (s\<lparr>pcs := (pcs s)(i := Unlock)\<rparr>)"
| recheck_null: "pcs s i = Check \<Longrightarrow> \<not> inst s \<Longrightarrow> dclp_step ord s (s\<lparr>pcs := (pcs s)(i := Alloc)\<rparr>)"
| construct: "ord \<noteq> Store_first \<Longrightarrow> pcs s i = Alloc \<Longrightarrow>
    dclp_step ord s (s\<lparr>pcs := (pcs s)(i := Publish), built := True, news := Suc (news s)\<rparr>)"
| publish: "pcs s i = Publish \<Longrightarrow> dclp_step ord s (s\<lparr>pcs := (pcs s)(i := Unlock), inst := True\<rparr>)"
| publish_early: "ord \<noteq> In_order \<Longrightarrow> pcs s i = Alloc \<Longrightarrow>
    dclp_step ord s (s\<lparr>pcs := (pcs s)(i := LateInit), inst := True, news := Suc (news s)\<rparr>)"
| late_init: "pcs s i = LateInit \<Longrightarrow> dclp_step ord s (s\<lparr>pcs := (pcs s)(i := Unlock), built := True\<rparr>)"
| unlock: "pcs s i = Unlock \<Longrightarrow> dclp_step ord s (s\<lparr>pcs := (pcs s)(i := Done), holder := None\<rparr>)"

inductive dclp_reach :: "publish_order \<Rightarrow> dclp \<Rightarrow> bool" for ord :: publish_order where
  init: "dclp_reach ord dclp_init"
| step: "dclp_reach ord s \<Longrightarrow> dclp_step ord s t \<Longrightarrow> dclp_reach ord t"

text \<open>What \<open>get_instance\<close> should guarantee: the object is allocated at most
  once, and a thread that has returned holds a pointer to a constructed
  object.\<close>

definition dclp_safe :: "dclp \<Rightarrow> bool" where
  "dclp_safe s \<longleftrightarrow> news s \<le> 1 \<and> (\<forall>i. pcs s i = Done \<longrightarrow> inst s \<and> built s)"

text \<open>The inductive invariant of the program-order machine: the lock is held
  exactly by the threads between \<open>lock\<close> and \<open>unlock\<close>; a thread about to
  allocate sees no object; the object exists exactly after one allocation;
  between construction and publication the constructing thread is the only
  one that knows of it; a published pointer is to a constructed object.\<close>

definition in_critical :: "pc \<Rightarrow> bool" where
  "in_critical p \<longleftrightarrow> p = Check \<or> p = Alloc \<or> p = Publish \<or> p = LateInit \<or> p = Unlock"

definition dclp_inv :: "dclp \<Rightarrow> bool" where
  "dclp_inv s \<longleftrightarrow>
     (\<forall>i. in_critical (pcs s i) \<longleftrightarrow> holder s = Some i) \<and>
     (built s \<longleftrightarrow> news s = 1) \<and> news s \<le> 1 \<and>
     (inst s \<longrightarrow> built s) \<and>
     (\<forall>i. pcs s i = Alloc \<longrightarrow> news s = 0) \<and>
     (\<forall>i. pcs s i = Publish \<longrightarrow> built s \<and> \<not> inst s) \<and>
     (\<forall>i. pcs s i = LateInit \<longrightarrow> False) \<and>
     (built s \<and> \<not> inst s \<longrightarrow> (case holder s of None \<Rightarrow> False | Some j \<Rightarrow> pcs s j = Publish)) \<and>
     (\<forall>i. pcs s i = Unlock \<or> pcs s i = Done \<longrightarrow> inst s)"

text \<open>A state written out field by field, for the traces below.\<close>

abbreviation st :: "(nat \<Rightarrow> pc) \<Rightarrow> nat option \<Rightarrow> bool \<Rightarrow> bool \<Rightarrow> nat \<Rightarrow> dclp" where
  "st p h i b n \<equiv> \<lparr>pcs = p, holder = h, inst = i, built = b, news = n\<rparr>"

text \<open>The lock holder can always finish: from each program point of the
  critical section, the remaining steps of that thread lead to \<open>Done\<close> and
  release the lock, and no other thread moves.\<close>

definition finishes :: "publish_order \<Rightarrow> dclp \<Rightarrow> nat \<Rightarrow> bool" where
  "finishes ord s j \<longleftrightarrow>
     (\<exists>t. (dclp_step ord)\<^sup>*\<^sup>* s t \<and> pcs t j = Done \<and> holder t = None \<and> (\<forall>k. k \<noteq> j \<longrightarrow> pcs t k = pcs s k))"

text \<open>How far a thread has got through \<open>get_instance\<close>: every step moves one
  thread strictly forward along its program points. \<open>dclp_step_among ord n\<close>
  are the steps of the threads \<open>0..n-1\<close>.\<close>

fun pc_rank :: "pc \<Rightarrow> nat" where
  "pc_rank Start = 0" | "pc_rank Wait = 1" | "pc_rank Check = 2" | "pc_rank Alloc = 3"
| "pc_rank Publish = 4" | "pc_rank LateInit = 4" | "pc_rank Unlock = 5" | "pc_rank Done = 6"

definition progress :: "nat \<Rightarrow> dclp \<Rightarrow> nat" where
  "progress n s = (\<Sum>i<n. pc_rank (pcs s i))"

definition dclp_step_among :: "publish_order \<Rightarrow> nat \<Rightarrow> dclp \<Rightarrow> dclp \<Rightarrow> bool" where
  "dclp_step_among ord n s t \<longleftrightarrow> dclp_step ord s t \<and> (\<forall>i. n \<le> i \<longrightarrow> pcs t i = pcs s i)"

text \<open>The invariant of every order that makes the runs deadlock-free: the
  lock holder is inside its critical section, and the threads from \<open>n\<close> on
  have not started.\<close>

definition holder_critical :: "nat \<Rightarrow> dclp \<Rightarrow> bool" where
  "holder_critical n s \<longleftrightarrow>
     (\<forall>j. holder s = Some j \<longrightarrow> in_critical (pcs s j)) \<and> (\<forall>j. n \<le> j \<longrightarrow> pcs s j = Start)"

section \<open>Lemmas\<close>

lemma dclp_inv_init: "dclp_inv dclp_init"
  by (simp add: dclp_inv_def dclp_init_def in_critical_def)

lemma holder_iff: "dclp_inv s \<Longrightarrow> holder s = Some i \<longleftrightarrow> in_critical (pcs s i)"
  by (simp add: dclp_inv_def)

lemma dclp_step_inv:
  assumes "dclp_step In_order s t" and "dclp_inv s"
  shows "dclp_inv t"
  using assms
proof (induction rule: dclp_step.induct)
  case (read_set s i)
  then show ?case using holder_iff [of s i] by (auto simp: dclp_inv_def in_critical_def split: option.splits)
next
  case (read_null s i)
  then show ?case using holder_iff [of s i] by (auto simp: dclp_inv_def in_critical_def split: option.splits)
next
  case (lock s i)
  then show ?case using holder_iff [of s i] by (auto simp: dclp_inv_def in_critical_def split: option.splits)
next
  case (recheck_set s i)
  then show ?case using holder_iff [of s i] by (auto simp: dclp_inv_def in_critical_def split: option.splits)
next
  case (recheck_null s i)
  then have "news s = 0"
    using holder_iff [of s i] by (auto simp: dclp_inv_def in_critical_def split: option.splits)
  with recheck_null show ?case using holder_iff [of s i] by (auto simp: dclp_inv_def in_critical_def split: option.splits)
next
  case (publish s i)
  then show ?case using holder_iff [of s i] by (auto simp: dclp_inv_def in_critical_def split: option.splits)
next
  case (construct s i)
  then show ?case using holder_iff [of s i] by (auto simp: dclp_inv_def in_critical_def split: option.splits)
next
  case (publish_early s i)
  then show ?case by simp
next
  case (late_init s i)
  then show ?case by (auto simp: dclp_inv_def)
next
  case (unlock s i)
  then show ?case using holder_iff [of s i] by (auto simp: dclp_inv_def in_critical_def split: option.splits)
qed


lemma dclp_reach_inv: "dclp_reach In_order s \<Longrightarrow> dclp_inv s"
proof (induction rule: dclp_reach.induct)
  case init
  then show ?case by (rule dclp_inv_init)
next
  case (step s t)
  then show ?case by (blast intro: dclp_step_inv)
qed

lemma dclp_inv_safe: "dclp_inv s \<Longrightarrow> dclp_safe s"
  by (auto simp: dclp_inv_def dclp_safe_def)

lemma dclp_reach_step_eq:
  "dclp_reach r s \<Longrightarrow> dclp_step r s t \<Longrightarrow> t = t' \<Longrightarrow> dclp_reach r t'"
  by (blast intro: dclp_reach.step)

text \<open>The first three steps of thread 0 on the empty state, under every order:
  it reads null, takes the lock, reads null again and is about to allocate.\<close>

lemma dclp_reach_alloc:
  "dclp_reach ord (st ((\<lambda>_. Start)(0 := Alloc)) (Some 0) False False 0)"
proof -
  have r0: "dclp_reach ord (st (\<lambda>_. Start) None False False 0)"
    using dclp_reach.init by (simp add: dclp_init_def)
  have r1: "dclp_reach ord (st ((\<lambda>_. Start)(0 := Wait)) None False False 0)"
    by (rule dclp_reach_step_eq [OF r0 dclp_step.read_null [where i = 0]]) simp_all
  have r2: "dclp_reach ord (st ((\<lambda>_. Start)(0 := Check)) (Some 0) False False 0)"
    by (rule dclp_reach_step_eq [OF r1 dclp_step.lock [where i = 0]]) simp_all
  show ?thesis
    by (rule dclp_reach_step_eq [OF r2 dclp_step.recheck_null [where i = 0]]) simp_all
qed

text \<open>When the pointer is stored before the object is ready, thread 1 can read
  it and return while thread 0 has not finished.\<close>

lemma dclp_reach_early_return:
  assumes "ord \<noteq> In_order"
  shows "dclp_reach ord (st ((\<lambda>_. Start)(0 := LateInit, 1 := Done)) (Some 0) True False 1)"
proof -
  have r4: "dclp_reach ord (st ((\<lambda>_. Start)(0 := LateInit)) (Some 0) True False 1)"
    by (rule dclp_reach_step_eq [OF dclp_reach_alloc dclp_step.publish_early [where i = 0]])
       (simp_all add: assms)
  show ?thesis
    by (rule dclp_reach_step_eq [OF r4 dclp_step.read_set [where i = 1]]) simp_all
qed

lemma dclp_early_return_unsafe:
  "\<not> dclp_safe (st ((\<lambda>_. Start)(0 := LateInit, 1 := Done)) (Some 0) True False 1)"
  unfolding dclp_safe_def by (auto intro!: exI [of _ "1::nat"])

lemma finishes_step:
  assumes "dclp_step ord s s'" and "finishes ord s' j" and "\<forall>k. k \<noteq> j \<longrightarrow> pcs s' k = pcs s k"
  shows "finishes ord s j"
  using assms unfolding finishes_def by (auto intro: converse_rtranclp_into_rtranclp)

lemma finishes_unlock: "pcs s j = Unlock \<Longrightarrow> finishes ord s j"
  unfolding finishes_def
  by (intro exI [of _ "s\<lparr>pcs := (pcs s)(j := Done), holder := None\<rparr>"]) (auto intro: dclp_step.unlock)

lemma finishes_publish: "pcs s j = Publish \<Longrightarrow> finishes ord s j"
  by (rule finishes_step [OF dclp_step.publish [of s j]]) (auto intro: finishes_unlock)

lemma finishes_alloc: "pcs s j = Alloc \<Longrightarrow> finishes In_order s j"
  by (rule finishes_step [OF dclp_step.construct [of In_order s j]]) (auto intro: finishes_publish)

lemma finishes_check: "pcs s j = Check \<Longrightarrow> finishes In_order s j"
proof (cases "inst s")
  case True
  assume "pcs s j = Check"
  with True show ?thesis
    by (intro finishes_step [OF dclp_step.recheck_set [of s j]]) (auto intro: finishes_unlock)
next
  case False
  assume "pcs s j = Check"
  with False show ?thesis
    by (intro finishes_step [OF dclp_step.recheck_null [of s j]]) (auto intro: finishes_alloc)
qed

lemma finishes_critical:
  assumes "dclp_inv s" and "holder s = Some j"
  shows "finishes In_order s j"
proof -
  have "in_critical (pcs s j)" using assms holder_iff by blast
  moreover have "pcs s j \<noteq> LateInit" using assms(1) by (auto simp: dclp_inv_def)
  ultimately show ?thesis
    by (auto simp: in_critical_def intro: finishes_check finishes_alloc finishes_publish finishes_unlock)
qed

lemma run_free_thread:
  assumes "holder s = None" and "pcs s i = Start \<or> pcs s i = Wait \<or> pcs s i = Done"
  shows "\<exists>t. (dclp_step In_order)\<^sup>*\<^sup>* s t \<and> pcs t i = Done"
proof -
  have wait: "\<exists>t. (dclp_step In_order)\<^sup>*\<^sup>* s' t \<and> pcs t i = Done"
    if "pcs s' i = Wait" and "holder s' = None" for s'
  proof -
    let ?c = "s'\<lparr>pcs := (pcs s')(i := Check), holder := Some i\<rparr>"
    have st: "dclp_step In_order s' ?c" using that by (rule dclp_step.lock)
    have "finishes In_order ?c i" by (rule finishes_check) simp
    then show ?thesis using st unfolding finishes_def by (auto intro: converse_rtranclp_into_rtranclp)
  qed
  consider "pcs s i = Done" | "pcs s i = Wait" | "pcs s i = Start" "inst s" | "pcs s i = Start" "\<not> inst s"
    using assms(2) by blast
  then show ?thesis
  proof cases
    case 1
    then show ?thesis by blast
  next
    case 2
    then show ?thesis using wait assms(1) by blast
  next
    case 3
    let ?t = "s\<lparr>pcs := (pcs s)(i := Done)\<rparr>"
    have "dclp_step In_order s ?t" using 3 by (rule dclp_step.read_set)
    then show ?thesis by (intro exI [of _ ?t]) auto
  next
    case 4
    let ?w = "s\<lparr>pcs := (pcs s)(i := Wait)\<rparr>"
    have st: "dclp_step In_order s ?w" using 4 by (rule dclp_step.read_null)
    obtain t where "(dclp_step In_order)\<^sup>*\<^sup>* ?w t" "pcs t i = Done"
      using wait [of ?w] assms(1) by auto
    with st show ?thesis by (blast intro: converse_rtranclp_into_rtranclp)
  qed
qed

lemma not_critical: "\<not> in_critical p \<Longrightarrow> p = Start \<or> p = Wait \<or> p = Done"
  by (cases p) (auto simp: in_critical_def)

lemma dclp_step_one_thread:
  "dclp_step ord s t \<Longrightarrow> \<exists>i p. pcs t = (pcs s)(i := p) \<and> pc_rank (pcs s i) < pc_rank p"
  by (induction rule: dclp_step.induct) fastforce+

lemma pc_rank_le: "pc_rank p \<le> 6"
  by (cases p) simp_all

lemma progress_le: "progress n s \<le> 6 * n"
proof -
  have "progress n s \<le> (\<Sum>i<n. 6)" unfolding progress_def by (rule sum_mono) (rule pc_rank_le)
  then show ?thesis by simp
qed

lemma progress_step:
  assumes "dclp_step_among ord n s t"
  shows "progress n s < progress n t"
proof -
  obtain i p where t: "pcs t = (pcs s)(i := p)" and lt: "pc_rank (pcs s i) < pc_rank p"
    using assms dclp_step_one_thread unfolding dclp_step_among_def by blast
  have "i < n"
  proof (rule ccontr)
    assume "\<not> i < n"
    then have "pcs t i = pcs s i" using assms unfolding dclp_step_among_def by simp
    with t lt show False by simp
  qed
  let ?rest = "\<Sum>j \<in> {..<n} - {i}. pc_rank (pcs s j)"
  have rest: "(\<Sum>j \<in> {..<n} - {i}. pc_rank (pcs t j)) = ?rest"
    by (rule sum.cong) (auto simp: t)
  have "progress n s = pc_rank (pcs s i) + ?rest"
    unfolding progress_def using \<open>i < n\<close> by (simp add: sum.remove)
  moreover have "progress n t = pc_rank (pcs t i) + ?rest"
    unfolding progress_def using \<open>i < n\<close> rest by (simp add: sum.remove)
  ultimately show ?thesis using lt t by simp
qed

lemma progress_steps:
  "(dclp_step_among ord n ^^ k) s t \<Longrightarrow> progress n s + k \<le> progress n t"
proof (induction k arbitrary: t)
  case 0
  then show ?case by simp
next
  case (Suc k)
  then obtain u where "(dclp_step_among ord n ^^ k) s u" "dclp_step_among ord n u t" by auto
  with Suc.IH [of u] progress_step [of ord n u t] show ?case by simp
qed

lemma dclp_among_step_eq:
  "(dclp_step_among ord n ^^ k) s u \<Longrightarrow> dclp_step ord u t \<Longrightarrow> t = t' \<Longrightarrow>
   (\<forall>i. n \<le> i \<longrightarrow> pcs t' i = pcs u i) \<Longrightarrow> (dclp_step_among ord n ^^ Suc k) s t'"
  by (auto simp: dclp_step_among_def)

subsection \<open>Deadlock freedom\<close>

lemma holder_critical_steps:
  "(dclp_step_among ord n ^^ k) dclp_init t \<Longrightarrow> holder_critical n t"
proof (induction k arbitrary: t)
  case 0
  then show ?case by (auto simp: holder_critical_def dclp_init_def)
next
  case (Suc k)
  then obtain s where s: "(dclp_step_among ord n ^^ k) dclp_init s" and st': "dclp_step_among ord n s t"
    by auto
  from st' have st: "dclp_step ord s t" and fx: "\<forall>i. n \<le> i \<longrightarrow> pcs t i = pcs s i"
    by (simp_all add: dclp_step_among_def)
  have hc: "holder_critical n s" using Suc.IH [OF s] .
  from st hc have "\<forall>j. holder t = Some j \<longrightarrow> in_critical (pcs t j)"
    by (induction rule: dclp_step.induct) (auto simp: holder_critical_def in_critical_def)
  with fx hc show ?case by (simp add: holder_critical_def)
qed

lemma thread_can_step:
  assumes "j < n" and "pcs s j \<noteq> Done" and "pcs s j = Wait \<Longrightarrow> holder s = None"
  shows "\<exists>u. dclp_step_among ord n s u"
proof -
  have go: "\<And>u p. dclp_step ord s u \<Longrightarrow> pcs u = (pcs s)(j := p) \<Longrightarrow> \<exists>u. dclp_step_among ord n s u"
    using assms(1) by (auto simp: dclp_step_among_def)
  show ?thesis
  proof (cases "pcs s j")
    case Start
    show ?thesis
    proof (cases "inst s")
      case True
      with Start show ?thesis by (auto intro!: go [OF dclp_step.read_set [where s = s and i = j]])
    next
      case False
      with Start show ?thesis by (auto intro!: go [OF dclp_step.read_null [where s = s and i = j]])
    qed
  next
    case Wait
    then show ?thesis using assms(3) by (auto intro!: go [OF dclp_step.lock [where s = s and i = j]])
  next
    case Check
    show ?thesis
    proof (cases "inst s")
      case True
      with Check show ?thesis by (auto intro!: go [OF dclp_step.recheck_set [where s = s and i = j]])
    next
      case False
      with Check show ?thesis by (auto intro!: go [OF dclp_step.recheck_null [where s = s and i = j]])
    qed
  next
    case Alloc
    show ?thesis
    proof (cases "ord = Store_first")
      case True
      with Alloc show ?thesis by (intro go [OF dclp_step.publish_early [where s = s and i = j]]) simp_all
    next
      case False
      with Alloc show ?thesis by (intro go [OF dclp_step.construct [where s = s and i = j]]) simp_all
    qed
  next
    case Publish
    then show ?thesis by (auto intro!: go [OF dclp_step.publish [where s = s and i = j]])
  next
    case LateInit
    then show ?thesis by (auto intro!: go [OF dclp_step.late_init [where s = s and i = j]])
  next
    case Unlock
    then show ?thesis by (auto intro!: go [OF dclp_step.unlock [where s = s and i = j]])
  next
    case Done
    then show ?thesis using assms(2) by simp
  qed
qed

lemma dclp_final_done:
  assumes hc: "holder_critical n s" and final: "\<not> (\<exists>u. dclp_step_among ord n s u)" and i: "i < n"
  shows "pcs s i = Done"
proof (rule ccontr)
  assume nd: "pcs s i \<noteq> Done"
  have "holder s = None"
  proof (cases "holder s")
    case (Some j)
    then have c: "in_critical (pcs s j)" using hc by (simp add: holder_critical_def)
    then have "j < n" using hc by (cases "n \<le> j") (auto simp: holder_critical_def in_critical_def)
    moreover have "pcs s j \<noteq> Done" and "pcs s j \<noteq> Wait" using c by (auto simp: in_critical_def)
    ultimately show ?thesis using thread_can_step [of j n s ord] final by blast
  qed
  then show False using thread_can_step [OF i nd] final by blast
qed

lemma step_moves_thread:
  assumes "dclp_step_among ord n s t"
  shows "\<exists>i<n. pcs s i \<noteq> Done"
proof -
  obtain i p where t: "pcs t = (pcs s)(i := p)" and lt: "pc_rank (pcs s i) < pc_rank p"
    using assms dclp_step_one_thread unfolding dclp_step_among_def by blast
  have "i < n"
  proof (rule ccontr)
    assume "\<not> i < n"
    then have "pcs t i = pcs s i" using assms unfolding dclp_step_among_def by simp
    with t lt show False by simp
  qed
  moreover have "pcs s i \<noteq> Done" using lt pc_rank_le [of p] by auto
  ultimately show ?thesis by blast
qed

section \<open>Properties\<close>

text \<open>C22. In program order, the double-checked locking of
  \<open>Index::get_instance\<close> is safe: in every reachable state of any number of
  threads the object has been allocated at most once, and every thread that
  has returned from \<open>get_instance\<close> holds a pointer to the constructed
  object.\<close>

theorem dclp_program_order_safe:
  assumes "dclp_reach In_order s"
  shows "dclp_safe s"
  using assms by (intro dclp_inv_safe dclp_reach_inv)

lemma dclp_run_one:
  "dclp_reach In_order (st ((\<lambda>_. Start)(0 := Done, 1 := Done)) None True True 1)"
proof -
  have r4: "dclp_reach In_order (st ((\<lambda>_. Start)(0 := Publish)) (Some 0) False True 1)"
    by (rule dclp_reach_step_eq [OF dclp_reach_alloc dclp_step.construct [where i = 0]]) simp_all
  have r5: "dclp_reach In_order (st ((\<lambda>_. Start)(0 := Unlock)) (Some 0) True True 1)"
    by (rule dclp_reach_step_eq [OF r4 dclp_step.publish [where i = 0]]) simp_all
  have r6: "dclp_reach In_order (st ((\<lambda>_. Start)(0 := Done)) None True True 1)"
    by (rule dclp_reach_step_eq [OF r5 dclp_step.unlock [where i = 0]]) simp_all
  show ?thesis
    by (rule dclp_reach_step_eq [OF r6 dclp_step.read_set [where i = 1]]) simp_all
qed

theorem dclp_program_order_safe_witness:
  "dclp_reach In_order (st ((\<lambda>_. Start)(0 := Done, 1 := Done)) None True True 1) \<and>
   dclp_safe (st ((\<lambda>_. Start)(0 := Done, 1 := Done)) None True True 1)"
  using dclp_run_one dclp_program_order_safe [OF dclp_run_one] by simp

text \<open>C23. \<open>JiebaUtil::get_instance\<close> stores the pointer before
  \<open>InitJiebaUtil\<close> has loaded the stop words, so even in program order a
  second thread can read the non-null pointer and return (and go on to
  segment with a stop-word table that is being filled) while the first is
  still initialising: five steps of two threads reach such a state.\<close>

theorem jieba_instance_unsafe:
  "dclp_reach Store_first (st ((\<lambda>_. Start)(0 := LateInit, 1 := Done)) (Some 0) True False 1) \<and>
   \<not> dclp_safe (st ((\<lambda>_. Start)(0 := LateInit, 1 := Done)) (Some 0) True False 1)"
  using dclp_reach_early_return [of Store_first] dclp_early_return_unsafe by simp

text \<open>The same trace when the store of the \<open>Index\<close> pointer may become
  visible before the construction (the unsynchronised first read allows it):
  under that memory-model assumption a second thread can read the non-null
  pointer and return while the object is not constructed.\<close>

lemma dclp_reordered_trace:
  "dclp_reach Reordered (st ((\<lambda>_. Start)(0 := LateInit, 1 := Done)) (Some 0) True False 1) \<and>
   \<not> dclp_safe (st ((\<lambda>_. Start)(0 := LateInit, 1 := Done)) (Some 0) True False 1)"
  using dclp_reach_early_return [of Reordered] dclp_early_return_unsafe by simp

text \<open>C39. In program order nobody waits for ever: from every reachable
  state of any number of threads, any given thread can be scheduled to return
  from \<open>get_instance\<close> (the lock holder first finishes its critical section,
  then the thread takes its own path).\<close>

theorem dclp_program_order_live:
  assumes "dclp_reach In_order s"
  shows "\<exists>t. (dclp_step In_order)\<^sup>*\<^sup>* s t \<and> pcs t i = Done"
proof -
  have inv: "dclp_inv s" using assms by (rule dclp_reach_inv)
  show ?thesis
  proof (cases "holder s")
    case None
    then have "\<not> in_critical (pcs s i)" using holder_iff [OF inv, of i] by simp
    then show ?thesis using run_free_thread [OF None] not_critical by blast
  next
    case (Some j)
    then obtain t1 where t1: "(dclp_step In_order)\<^sup>*\<^sup>* s t1" "pcs t1 j = Done" "holder t1 = None"
      "\<forall>k. k \<noteq> j \<longrightarrow> pcs t1 k = pcs s k"
      using finishes_critical [OF inv Some] unfolding finishes_def by blast
    show ?thesis
    proof (cases "i = j")
      case True
      then show ?thesis using t1 by blast
    next
      case False
      then have "\<not> in_critical (pcs s i)" using holder_iff [OF inv, of i] Some by simp
      then have "pcs t1 i = Start \<or> pcs t1 i = Wait \<or> pcs t1 i = Done"
        using t1(4) False not_critical by simp
      then obtain t where "(dclp_step In_order)\<^sup>*\<^sup>* t1 t" "pcs t i = Done"
        using run_free_thread [OF t1(3)] by blast
      with t1(1) show ?thesis by (blast intro: rtranclp_trans)
    qed
  qed
qed

theorem dclp_program_order_live_witness:
  "dclp_reach In_order dclp_init \<and> (\<exists>t. (dclp_step In_order)\<^sup>*\<^sup>* dclp_init t \<and> pcs t 0 = Done)"
  using dclp_reach.init dclp_program_order_live [OF dclp_reach.init, of 0] by blast

text \<open>C19. \<open>get_instance\<close> terminates without deadlock, in every
  publication order: a run of the threads \<open>0..n-1\<close> from the initial state
  has at most \<open>6 n\<close> steps (each step moves one thread forward and a thread
  has at most six steps to take; waiting for the mutex is not a step), and
  the run can go on exactly as long as one of the threads has not returned, so
  every run that stops has all threads returned.\<close>

theorem get_instance_terminates:
  assumes "(dclp_step_among ord n ^^ k) dclp_init t"
  shows "k \<le> 6 * n \<and> ((\<exists>u. dclp_step_among ord n t u) \<longleftrightarrow> (\<exists>i<n. pcs t i \<noteq> Done))"
proof -
  have "k \<le> 6 * n" using progress_steps [OF assms] progress_le [of n t] by simp
  moreover have "(\<exists>i<n. pcs t i \<noteq> Done) \<Longrightarrow> \<exists>u. dclp_step_among ord n t u"
    using dclp_final_done [OF holder_critical_steps [OF assms]] by blast
  ultimately show ?thesis using step_moves_thread by blast
qed

theorem get_instance_terminates_witness:
  "(dclp_step_among In_order 1 ^^ 6) dclp_init (st ((\<lambda>_. Start)(0 := Done)) None True True 1) \<and> (6::nat) \<le> 6 * 1 \<and>
   \<not> (\<exists>u. dclp_step_among In_order 1 (st ((\<lambda>_. Start)(0 := Done)) None True True 1) u)"
proof -
  let ?R = "dclp_step_among In_order 1"
  have r0: "(?R ^^ 0) dclp_init (st (\<lambda>_. Start) None False False 0)" by (simp add: dclp_init_def)
  have r1: "(?R ^^ Suc 0) dclp_init (st ((\<lambda>_. Start)(0 := Wait)) None False False 0)"
    by (rule dclp_among_step_eq [OF r0 dclp_step.read_null [where i = 0]]) auto
  have r2: "(?R ^^ Suc (Suc 0)) dclp_init (st ((\<lambda>_. Start)(0 := Check)) (Some 0) False False 0)"
    by (rule dclp_among_step_eq [OF r1 dclp_step.lock [where i = 0]]) auto
  have r3: "(?R ^^ Suc (Suc (Suc 0))) dclp_init (st ((\<lambda>_. Start)(0 := Alloc)) (Some 0) False False 0)"
    by (rule dclp_among_step_eq [OF r2 dclp_step.recheck_null [where i = 0]]) auto
  have r4: "(?R ^^ Suc (Suc (Suc (Suc 0)))) dclp_init (st ((\<lambda>_. Start)(0 := Publish)) (Some 0) False True 1)"
    by (rule dclp_among_step_eq [OF r3 dclp_step.construct [where i = 0]]) auto
  have r5: "(?R ^^ Suc (Suc (Suc (Suc (Suc 0))))) dclp_init (st ((\<lambda>_. Start)(0 := Unlock)) (Some 0) True True 1)"
    by (rule dclp_among_step_eq [OF r4 dclp_step.publish [where i = 0]]) auto
  have r6: "(?R ^^ Suc (Suc (Suc (Suc (Suc (Suc 0)))))) dclp_init (st ((\<lambda>_. Start)(0 := Done)) None True True 1)"
    by (rule dclp_among_step_eq [OF r5 dclp_step.unlock [where i = 0]]) auto
  then show ?thesis using get_instance_terminates [OF r6] by (simp add: numeral_eq_Suc)
qed

end
