(* ===== verification/Parser.thy ===== *)
theory Parser
  imports Tools "HOL-Library.Word"
begin

text \<open>
  Model of \<open>src/parser.cc\<close>, the offline step that turns the Boost HTML
  documentation into the corpus file \<open>raw.txt\<close>: \<open>extract_html\<close> (the
  \<open>.html\<close> regular files below \<open>data/input\<close>), \<open>get_file_all\<close> (read a file
  line by line and concatenate the lines), \<open>get_title\<close> (the text between
  \<open><title>\<close> and \<open></title>\<close>, with \<open>size_t\<close> arithmetic as 64-bit words),
  \<open>get_content\<close> (the two-state \<open>LABEL\<close>/\<open>BODY\<close> machine that drops tags),
  \<open>get_url\<close> (the path after \<open>data/input\<close> appended to the Boost url;
  \<open>substr\<close> throws on a shorter path), \<open>parse_html\<close>, \<open>save_file\<close> (append
  one \<open>'\3'\<close>-separated line per document) and \<open>main\<close> with its exit codes.
  The file system is a map from path to contents (\<^term>\<open>None\<close>: the file
  cannot be opened); the directory walk is the list of entries the recursive
  iterator yields, each with its \<open>is_regular_file\<close> flag.
\<close>

section \<open>State\<close>

record file_content =
  fc_title :: string
  fc_content :: string
  fc_url :: string

type_synonym files = "string \<rightharpoonup> string"

type_synonym size_t = "64 word"

text \<open>One entry of \<open>recursive_directory_iterator\<close>: its path and whether it
  is a regular file.\<close>

type_synonym dir_entry = "string \<times> bool"

section \<open>\<open>extract_html\<close>\<close>

text \<open>\<open>boost::filesystem::path::filename\<close> and \<open>extension\<close> (Filesystem v3):
  the filename is the part after the last \<open>/\<close>; its extension starts at its
  last dot, except for the filenames \<open>.\<close> and \<open>..\<close>, and is empty when there
  is no dot.\<close>

definition filename :: "string \<Rightarrow> string" where
  "filename p = rev (takeWhile (\<lambda>c. c \<noteq> CHR ''/'') (rev p))"

definition extension :: "string \<Rightarrow> string" where
  "extension p =
     (let f = filename p in
      if f = ''.'' \<or> f = ''..'' \<or> CHR ''.'' \<notin> set f then []
      else CHR ''.'' # rev (takeWhile (\<lambda>c. c \<noteq> CHR ''.'') (rev f)))"

definition is_html_entry :: "dir_entry \<Rightarrow> bool" where
  "is_html_entry e \<longleftrightarrow> snd e \<and> extension (fst e) = ''.html''"

text \<open>\<open>htmls\<close> is an in-out parameter: the paths are pushed to its end.\<close>

definition extract_html :: "bool \<Rightarrow> dir_entry list \<Rightarrow> string list \<Rightarrow> bool \<times> string list" where
  "extract_html root_exists entries htmls =
     (if \<not> root_exists then (False, htmls)
      else (True, fold (\<lambda>e hs. if \<not> snd e then hs
                                else if extension (fst e) \<noteq> ''.html'' then hs
                                else hs @ [fst e]) entries htmls))"

section \<open>Reading a file\<close>

text \<open>\<open>get_file_all\<close>: an unopenable file gives the empty string; otherwise
  the lines read by \<open>getline\<close>, which drops the newlines, are appended.\<close>

definition get_file_all :: "files \<Rightarrow> string \<Rightarrow> string" where
  "get_file_all fs p = (case fs p of None \<Rightarrow> [] | Some txt \<Rightarrow> fold (\<lambda>l res. res @ l) (getlines txt) [])"

section \<open>\<open>get_title\<close>\<close>

text \<open>The result is \<^term>\<open>Inr None\<close> for \<open>return false\<close>, \<^term>\<open>Inr (Some t)\<close>
  for \<open>return true\<close> with \<open>title = t\<close>, and \<^term>\<open>Inl Out_of_range\<close> if
  \<open>substr\<close> throws. \<open>find\<close> returns \<open>npos\<close> as \<^term>\<open>None\<close>; the positions and
  the length are \<open>size_t\<close> values, so \<open>end - begin - sz\<close> wraps.\<close>

definition get_title :: "files \<Rightarrow> string \<Rightarrow> string option cpp" where
  "get_title fs p =
     (let file_all = get_file_all fs p in
      if file_all = [] then Inr None
      else
        (let sz = (of_nat (length ''<title>'') :: size_t) in
         case str_find file_all ''<title>'' of
           None \<Rightarrow> Inr None
         | Some b \<Rightarrow>
             (case str_find file_all ''</title>'' of
                None \<Rightarrow> Inr None
              | Some e \<Rightarrow>
                  (let begin_pos = (of_nat b :: size_t); end_pos = (of_nat e :: size_t) in
                   if end_pos \<le> begin_pos then Inr None
                   else
                     (let len = end_pos - begin_pos - sz in
                      cpp_bind (substr file_all (unat (begin_pos + sz)) (unat len))
                        (\<lambda>t. Inr (Some t)))))))"

section \<open>\<open>get_content\<close>\<close>

datatype state = LABEL | BODY

text \<open>The loop of \<open>get_content\<close>: in \<open>LABEL\<close> every character is skipped
  and \<open>>\<close> switches to \<open>BODY\<close>; in \<open>BODY\<close> a \<open><\<close> switches back, and any
  other character is appended, a newline as a space.\<close>

fun content_loop :: "state \<Rightarrow> string \<Rightarrow> string \<Rightarrow> string" where
  "content_loop st content [] = content"
| "content_loop LABEL content (c # cs) =
     (if c = CHR ''>'' then content_loop BODY content cs else content_loop LABEL content cs)"
| "content_loop BODY content (c # cs) =
     (if c = CHR ''<'' then content_loop LABEL content cs
      else content_loop BODY (content @ [if c = newline then CHR '' '' else c]) cs)"

definition get_content :: "files \<Rightarrow> string \<Rightarrow> string option" where
  "get_content fs p =
     (let file_all = get_file_all fs p in
      if file_all = [] then None else Some (content_loop LABEL [] file_all))"

section \<open>\<open>get_url\<close>\<close>

definition url_head :: string where
  "url_head = ''https://www.boost.org/doc/libs/1_78_0/doc/html''"

text \<open>\<open>file_path.substr(sz)\<close> takes the rest of the string (count
  \<open>npos\<close>, any count at least the rest) and throws when \<open>sz\<close> exceeds the
  length.\<close>

definition get_url :: "string \<Rightarrow> string cpp" where
  "get_url file_path =
     cpp_bind (substr file_path (length ''data/input'') (length file_path)) (\<lambda>tail. Inr (url_head @ tail))"

section \<open>\<open>parse_html\<close>\<close>

text \<open>One iteration of the loop: the three extractions in order; a failed one
  leaves its field empty (only a warning is logged); an exception escapes.\<close>

definition parse_one :: "files \<Rightarrow> string \<Rightarrow> file_content cpp" where
  "parse_one fs file_path =
     cpp_bind (get_title fs file_path) (\<lambda>t.
       (let c = get_content fs file_path in
        cpp_bind (get_url file_path) (\<lambda>u.
          Inr \<lparr>fc_title = (case t of None \<Rightarrow> [] | Some x \<Rightarrow> x),
               fc_content = (case c of None \<Rightarrow> [] | Some x \<Rightarrow> x),
               fc_url = u\<rparr>)))"

fun parse_loop :: "files \<Rightarrow> string list \<Rightarrow> file_content list \<Rightarrow> file_content list cpp" where
  "parse_loop fs [] fcs = Inr fcs"
| "parse_loop fs (p # ps) fcs = cpp_bind (parse_one fs p) (\<lambda>item. parse_loop fs ps (fcs @ [item]))"

definition parse_html :: "files \<Rightarrow> string list \<Rightarrow> file_content list \<Rightarrow> (bool \<times> file_content list) cpp" where
  "parse_html fs htmls fcs =
     (if htmls = [] then Inr (False, fcs)
      else cpp_bind (parse_loop fs htmls fcs) (\<lambda>r. Inr (True, r)))"

section \<open>\<open>save_file\<close>\<close>

definition record_line :: "file_content \<Rightarrow> string" where
  "record_line item = fc_title item @ SEP3 @ fc_content item @ SEP3 @ fc_url item @ [newline]"

text \<open>The output file \<open>raw.txt\<close>, opened in append mode: \<^term>\<open>None\<close> when it
  cannot be opened, otherwise its current contents.\<close>

definition save_file :: "string option \<Rightarrow> file_content list \<Rightarrow> bool \<times> string option" where
  "save_file raw fcs =
     (case raw of
        None \<Rightarrow> (False, None)
      | Some txt \<Rightarrow> (True, Some (fold (\<lambda>item out. out @ record_line item) fcs txt)))"

section \<open>\<open>main\<close>\<close>

record parser_env =
  root_exists :: bool
  entries :: "dir_entry list"
  html_files :: files
  raw_txt :: "string option"

text \<open>The exit code (0 on success, 1, 2 or 3 after a failed step) and the
  contents of \<open>raw.txt\<close> afterwards; an exception escaping \<open>main\<close> ends the
  process (\<open>std::terminate\<close>) and is the \<open>Inl\<close> value.\<close>

definition parser_main :: "parser_env \<Rightarrow> (nat \<times> string option) cpp" where
  "parser_main env =
     (let (ok1, htmls) = extract_html (root_exists env) (entries env) [] in
      if \<not> ok1 then Inr (1, raw_txt env)
      else cpp_bind (parse_html (html_files env) htmls []) (\<lambda>(ok2, fcs).
        if \<not> ok2 then Inr (2, raw_txt env)
        else (let (ok3, raw') = save_file (raw_txt env) fcs in
              if \<not> ok3 then Inr (3, raw') else Inr (0, raw'))))"

section \<open>Specification of the extraction\<close>

text \<open>A document as a sequence of elements, each a tag (the text between
  \<open><\<close> and \<open>>\<close>) followed by the text up to the next tag.\<close>

definition html_of :: "(string \<times> string) list \<Rightarrow> string" where
  "html_of es = concat (map (\<lambda>(tg, tx). CHR ''<'' # tg @ CHR ''>'' # tx) es)"

definition well_formed_html :: "(string \<times> string) list \<Rightarrow> bool" where
  "well_formed_html es \<longleftrightarrow>
     list_all (\<lambda>(tg, tx). CHR ''>'' \<notin> set tg \<and> newline \<notin> set tg \<and> CHR ''<'' \<notin> set tx) es"

text \<open>The record one iteration of \<open>parse_html\<close> pushes for a path long
  enough for \<open>get_url\<close>: a failed extraction leaves its field empty.\<close>

definition parsed :: "files \<Rightarrow> string \<Rightarrow> file_content" where
  "parsed fs p = \<lparr>fc_title = (case get_title fs p of Inr (Some t) \<Rightarrow> t | _ \<Rightarrow> []),
                  fc_content = (case get_content fs p of None \<Rightarrow> [] | Some c \<Rightarrow> c),
                  fc_url = url_head @ drop 10 p\<rparr>"

section \<open>A worked example\<close>

definition demo_path :: string where
  "demo_path = ''data/input/a.html''"

definition demo_elems :: "(string \<times> string) list" where
  "demo_elems = [(''html'', []), (''title'', ''Boost X''), (''/title'', []),
                 (''p'', ''foo'' @ [newline] @ ''bar''), (''/p'', []), (''/html'', [newline])]"

definition demo_fs :: files where
  "demo_fs = [demo_path \<mapsto> html_of demo_elems]"

definition demo_env :: parser_env where
  "demo_env = \<lparr>root_exists = True, entries = [(demo_path, True), (''data/input/b.txt'', True),
                                             (''data/input/sub'', False)],
               html_files = demo_fs, raw_txt = Some []\<rparr>"

section \<open>Lemmas\<close>

lemma fold_append_concat: "fold (\<lambda>l res. res @ l) ls acc = acc @ concat ls"
  by (induction ls arbitrary: acc) auto

lemma concat_getlines_acc:
  "concat (getlines_acc cur s) = cur @ filter (\<lambda>c. c \<noteq> newline) s"
  by (induction cur s rule: getlines_acc.induct) auto

lemma get_file_all_eq:
  "get_file_all fs p = (case fs p of None \<Rightarrow> [] | Some txt \<Rightarrow> filter (\<lambda>c. c \<noteq> newline) txt)"
  by (simp add: get_file_all_def fold_append_concat getlines_def concat_getlines_acc split: option.splits)

lemma content_loop_append_acc:
  "content_loop st (acc1 @ acc2) s = acc1 @ content_loop st acc2 s"
proof (induction s arbitrary: st acc2)
  case Nil
  then show ?case by simp
next
  case (Cons c cs)
  then show ?case by (cases st) simp_all
qed

lemma content_loop_no_lt:
  "CHR ''<'' \<notin> set acc \<Longrightarrow> CHR ''<'' \<notin> set (content_loop st acc s)"
proof (induction s arbitrary: st acc)
  case Nil
  then show ?case by simp
next
  case (Cons c cs)
  then show ?case by (cases st) auto
qed

lemma content_loop_label:
  "CHR ''>'' \<notin> set tg \<Longrightarrow> content_loop LABEL acc (tg @ CHR ''>'' # rest) = content_loop BODY acc rest"
  by (induction tg) auto

lemma content_loop_body:
  "CHR ''<'' \<notin> set tx \<Longrightarrow> newline \<notin> set tx \<Longrightarrow> content_loop BODY acc (tx @ rest) = content_loop BODY (acc @ tx) rest"
  by (induction tx arbitrary: acc) auto

lemma content_loop_html:
  assumes "well_formed_html es" and "\<forall>(tg, tx) \<in> set es. newline \<notin> set tx"
  shows "content_loop st acc (html_of es) = acc @ concat (map snd es)"
  using assms
proof (induction es arbitrary: st acc)
  case Nil
  then show ?case by (simp add: html_of_def)
next
  case (Cons e es)
  obtain tg tx where e: "e = (tg, tx)" by (cases e)
  have "content_loop st acc (CHR ''<'' # tg @ CHR ''>'' # tx @ html_of es) =
        content_loop LABEL acc (tg @ CHR ''>'' # tx @ html_of es)"
    by (cases st) simp_all
  also have "\<dots> = content_loop BODY (acc @ tx) (html_of es)"
    using Cons.prems e by (simp add: well_formed_html_def content_loop_label content_loop_body)
  also have "\<dots> = (acc @ tx) @ concat (map snd es)"
    using Cons by (simp add: well_formed_html_def)
  finally show ?case by (simp add: e html_of_def)
qed

lemma filter_html_of:
  "well_formed_html es \<Longrightarrow>
   filter (\<lambda>c. c \<noteq> newline) (html_of es) = html_of (map (\<lambda>(tg, tx). (tg, filter (\<lambda>c. c \<noteq> newline) tx)) es)"
  by (induction es) (auto simp: html_of_def well_formed_html_def filter_id_conv)

lemma well_formed_html_filter:
  "well_formed_html es \<Longrightarrow> well_formed_html (map (\<lambda>(tg, tx). (tg, filter (\<lambda>c. c \<noteq> newline) tx)) es)"
  by (induction es) (auto simp: well_formed_html_def)

lemma html_of_Cons_ne: "es \<noteq> [] \<Longrightarrow> filter (\<lambda>c. c \<noteq> newline) (html_of es) \<noteq> []"
  by (cases es) (auto simp: html_of_def)

lemma take_drop_nth:
  "take n (drop i s) = w \<Longrightarrow> k < n \<Longrightarrow> i + n \<le> length s \<Longrightarrow> s ! (i + k) = w ! k"
  by auto

lemma title_close_after_open:
  assumes "take 7 (drop b s) = ''<title>''" and "b + 7 \<le> length s"
    and "take 8 (drop e s) = ''</title>''" and "e + 8 \<le> length s" and "b < e"
  shows "b + 7 \<le> e"
proof (rule ccontr)
  assume "\<not> b + 7 \<le> e"
  define k where "k = e - b"
  have e: "e = b + k" and k: "k \<in> {1, 2, 3, 4, 5, 6}"
    using assms(5) \<open>\<not> b + 7 \<le> e\<close> unfolding k_def by auto
  have "s ! (e + 0) = ''</title>'' ! 0"
    by (rule take_drop_nth [OF assms(3) _ assms(4)]) simp
  moreover have "s ! (b + k) = ''<title>'' ! k"
    by (rule take_drop_nth [OF assms(1) _ assms(2)]) (use k in auto)
  ultimately show False using e k by auto
qed

lemma unat_of_nat_size_t [simp]: "n < 2 ^ 64 \<Longrightarrow> unat (of_nat n :: size_t) = n"
  by (simp add: unat_of_nat)

lemma unat_title_len:
  assumes "b + 7 \<le> e" and "e < 2 ^ 64"
  shows "unat ((of_nat e :: size_t) - of_nat b - 7) = e - b - 7"
proof -
  have "(of_nat (e - (b + 7)) :: size_t) = of_nat e - of_nat (b + 7)"
    using assms(1) by (rule of_nat_diff)
  then have "(of_nat e :: size_t) - of_nat b - 7 = of_nat (e - b - 7)"
    by (simp add: diff_diff_add)
  moreover have "unat (of_nat (e - b - 7) :: size_t) = e - b - 7"
    using assms by (intro unat_of_nat_size_t) linarith
  ultimately show ?thesis by (simp only:)
qed

lemma unat_title_start:
  assumes "b + 7 < 2 ^ 64"
  shows "unat ((of_nat b :: size_t) + 7) = b + 7"
proof -
  have "(of_nat b :: size_t) + 7 = of_nat (b + 7)" by simp
  then show ?thesis using assms by (simp only: unat_of_nat_size_t)
qed

lemma str_find_title:
  "str_find s ''<title>'' = Some b \<Longrightarrow> take 7 (drop b s) = ''<title>'' \<and> b + 7 \<le> length s"
  using str_find_match [of s "''<title>''" b] by (simp add: numeral_eq_Suc)

lemma str_find_close_title:
  "str_find s ''</title>'' = Some e \<Longrightarrow> take 8 (drop e s) = ''</title>'' \<and> e + 8 \<le> length s"
  using str_find_match [of s "''</title>''" e] by (simp add: numeral_eq_Suc)

lemma unat_size_t_add_le: "unat ((of_nat b :: size_t) + 7) \<le> b + 7"
proof -
  have eq: "(of_nat b :: size_t) + 7 = of_nat (b + 7)" by simp
  have "unat (of_nat (b + 7) :: size_t) \<le> b + 7"
    by (subst unat_of_nat) (rule mod_less_eq_dividend)
  then show ?thesis by (simp only: eq)
qed

lemma get_title_no_throw: "\<exists>t. get_title fs p = Inr t"
proof -
  have "substr s (unat ((of_nat b :: size_t) + 7)) n = Inr (take n (drop (unat ((of_nat b :: size_t) + 7)) s))"
    if "str_find s ''<title>'' = Some b" for s b n
    using str_find_title [OF that] unat_size_t_add_le [of b] by (intro substr_ok) linarith
  then show ?thesis
    by (auto simp: get_title_def Let_def split: option.splits)
qed

lemma extract_html_eq:
  "extract_html True es hs = (True, hs @ map fst (filter is_html_entry es))"
proof -
  have "fold (\<lambda>e hs. if \<not> snd e then hs else if extension (fst e) \<noteq> ''.html'' then hs else hs @ [fst e]) es hs
        = hs @ map fst (filter is_html_entry es)" for hs
    by (induction es arbitrary: hs) (auto simp: is_html_entry_def)
  then show ?thesis by (simp add: extract_html_def)
qed

lemma parse_one_eq:
  "parse_one fs p = (if length p < 10 then Inl Out_of_range else Inr (parsed fs p))"
proof -
  obtain t where t: "get_title fs p = Inr t" using get_title_no_throw by blast
  show ?thesis
    by (cases t) (simp_all add: parse_one_def parsed_def t get_url_def substr_def numeral_eq_Suc Let_def)
qed

lemma parse_loop_eq:
  "parse_loop fs ps fcs =
     (if \<exists>p \<in> set ps. length p < 10 then Inl Out_of_range else Inr (fcs @ map (parsed fs) ps))"
  by (induction ps arbitrary: fcs) (auto simp: parse_one_eq)

lemma save_file_eq:
  "save_file (Some txt) fcs = (True, Some (txt @ concat (map record_line fcs)))"
proof -
  have "fold (\<lambda>item out. out @ record_line item) fcs t0 = t0 @ concat (map record_line fcs)" for t0
    by (induction fcs arbitrary: t0) auto
  then show ?thesis by (simp add: save_file_def)
qed

lemma get_file_all_no_newline: "newline \<notin> set (get_file_all fs p)"
  by (simp add: get_file_all_eq split: option.splits)

lemma content_loop_no_newline:
  "newline \<notin> set acc \<Longrightarrow> newline \<notin> set (content_loop st acc s)"
proof (induction s arbitrary: st acc)
  case Nil
  then show ?case by simp
next
  case (Cons c cs)
  then show ?case by (cases st) auto
qed

lemma get_title_sub:
  "get_title fs p = Inr (Some t) \<Longrightarrow> set t \<subseteq> set (get_file_all fs p)"
  by (auto simp: get_title_def Let_def substr_def split: option.splits if_splits dest: in_set_takeD in_set_dropD)

lemma parsed_no_newline:
  "newline \<notin> set (fc_title (parsed fs p)) \<and> newline \<notin> set (fc_content (parsed fs p))"
proof -
  obtain t where t: "get_title fs p = Inr t" using get_title_no_throw by blast
  then show ?thesis
    using get_title_sub [of fs p] get_file_all_no_newline [of fs p] content_loop_no_newline [of "[]" LABEL]
    by (cases t) (auto simp: parsed_def get_content_def Let_def)
qed

lemma of_nat_size_t_le:
  "a < 2 ^ 64 \<Longrightarrow> c < 2 ^ 64 \<Longrightarrow> ((of_nat a :: size_t) \<le> of_nat c) \<longleftrightarrow> a \<le> c"
  by (simp add: word_le_nat_alt)

lemma get_title_found:
  assumes "get_file_all fs p = s" and "s \<noteq> []" and "str_find s ''<title>'' = Some b" and "str_find s ''</title>'' = Some e"
  shows "get_title fs p =
    (if (of_nat e :: size_t) \<le> of_nat b then Inr None
     else cpp_bind (substr s (unat ((of_nat b :: size_t) + 7)) (unat ((of_nat e :: size_t) - of_nat b - 7))) (\<lambda>t. Inr (Some t)))"
  using assms unfolding get_title_def Let_def by simp

lemma get_title_not_found:
  "str_find (get_file_all fs p) ''<title>'' = None \<or> str_find (get_file_all fs p) ''</title>'' = None \<Longrightarrow>
   get_title fs p = Inr None"
  unfolding get_title_def Let_def by (auto split: option.split)

section \<open>Properties of the extraction\<close>

text \<open>C25. \<open>get_title\<close> returns the text between the first \<open><title>\<close> and the
  first \<open></title>\<close> when the latter comes after the former, and false
  otherwise (no tag, an empty file, or a first \<open></title>\<close> before the first
  \<open><title>\<close>). The \<open>size_t\<close> expression \<open>end - begin - sz\<close> never
  wraps: the first \<open></title>\<close> cannot start inside \<open><title>\<close>. Files are
  shorter than \<open>2^64\<close> bytes.\<close>

theorem get_title_eq:
  assumes "length (get_file_all fs p) < 2 ^ 64"
  shows "get_title fs p =
    (let s = get_file_all fs p in
     case (str_find s ''<title>'', str_find s ''</title>'') of
       (Some b, Some e) \<Rightarrow> if b < e then Inr (Some (take (e - b - 7) (drop (b + 7) s))) else Inr None
     | _ \<Rightarrow> Inr None)"
proof (cases "str_find (get_file_all fs p) ''<title>''")
  case None
  then have "get_title fs p = Inr None" by (intro get_title_not_found) simp
  then show ?thesis using None by (simp add: Let_def)
next
  case (Some b)
  note sb = Some
  note b = str_find_title [OF Some]
  show ?thesis
  proof (cases "str_find (get_file_all fs p) ''</title>''")
    case None
    then have "get_title fs p = Inr None" by (intro get_title_not_found) simp
    then show ?thesis using None sb by (simp add: Let_def)
  next
    case (Some e)
    note e = str_find_close_title [OF Some]
    have ne: "get_file_all fs p \<noteq> []" using b by auto
    have lt: "b < 2 ^ 64" "e < 2 ^ 64" using b e assms by linarith+
    have le: "((of_nat e :: size_t) \<le> of_nat b) \<longleftrightarrow> e \<le> b"
      by (rule of_nat_size_t_le [OF lt(2) lt(1)])
    note found = get_title_found [OF refl ne sb Some]
    show ?thesis
    proof (cases "b < e")
      case True
      have be: "b + 7 \<le> e"
        by (rule title_close_after_open [OF conjunct1 [OF b] conjunct2 [OF b] conjunct1 [OF e] conjunct2 [OF e] True])
      have "unat ((of_nat e :: size_t) - of_nat b - 7) = e - b - 7"
        by (rule unat_title_len [OF be lt(2)])
      moreover have "unat ((of_nat b :: size_t) + 7) = b + 7"
        by (rule unat_title_start) (use be lt in linarith)
      ultimately show ?thesis
        using True found le sb Some conjunct2 [OF b] by (simp add: substr_ok)
    next
      case False
      then show ?thesis using found le sb Some by simp
    qed
  qed
qed

theorem get_title_eq_witness:
  "length (get_file_all demo_fs demo_path) < 2 ^ 64 \<and> get_title demo_fs demo_path = Inr (Some ''Boost X'')"
proof -
  have ga: "get_file_all demo_fs demo_path = ''<html><title>Boost X</title><p>foobar</p></html>''"
    by code_simp
  have h: "length (get_file_all demo_fs demo_path) < 2 ^ 64" by (simp add: ga)
  have o: "str_find ''<html><title>Boost X</title><p>foobar</p></html>'' ''<title>'' = Some 6" by code_simp
  have c: "str_find ''<html><title>Boost X</title><p>foobar</p></html>'' ''</title>'' = Some 20" by code_simp
  have "get_title demo_fs demo_path =
    (let s = get_file_all demo_fs demo_path in
     case (str_find s ''<title>'', str_find s ''</title>'') of
       (Some b, Some e) \<Rightarrow> if b < e then Inr (Some (take (e - b - 7) (drop (b + 7) s))) else Inr None
     | _ \<Rightarrow> Inr None)"
    by (rule get_title_eq [OF h])
  also have "\<dots> = Inr (Some ''Boost X'')" by (simp add: ga o c)
  finally show ?thesis using h by simp
qed

text \<open>C26. On a file made of tags and texts, \<open>get_content\<close> returns the texts
  concatenated with every newline deleted: \<open>get_file_all\<close> has already
  dropped the line breaks, so the branch that turns a newline into a space
  never runs and the last word of a line is glued to the first word of the
  next. The text of the \<open><title>\<close> element is part of the content.\<close>

theorem get_content_text:
  assumes "fs p = Some (html_of es)" and "es \<noteq> []" and "well_formed_html es"
  shows "get_content fs p = Some (concat (map (\<lambda>(tg, tx). filter (\<lambda>c. c \<noteq> newline) tx) es))"
proof -
  let ?es' = "map (\<lambda>(tg, tx). (tg, filter (\<lambda>c. c \<noteq> newline) tx)) es"
  have nl: "\<forall>(tg, tx) \<in> set ?es'. newline \<notin> set tx" by auto
  have "content_loop LABEL [] (html_of ?es') = concat (map snd ?es')"
    using content_loop_html [OF well_formed_html_filter [OF assms(3)] nl, of LABEL "[]"] by simp
  moreover have "concat (map snd ?es') = concat (map (\<lambda>(tg, tx). filter (\<lambda>c. c \<noteq> newline) tx) es)"
    by (induction es) auto
  ultimately show ?thesis
    using assms html_of_Cons_ne [OF assms(2)]
    by (simp add: get_content_def get_file_all_eq filter_html_of)
qed

theorem get_content_text_witness:
  "demo_fs demo_path = Some (html_of demo_elems) \<and> demo_elems \<noteq> [] \<and> well_formed_html demo_elems \<and>
   get_content demo_fs demo_path = Some ''Boost Xfoobar''"
proof -
  have h1: "demo_fs demo_path = Some (html_of demo_elems)" by (simp add: demo_fs_def)
  have h2: "demo_elems \<noteq> []" by (simp add: demo_elems_def)
  have h3: "well_formed_html demo_elems" by code_simp
  have "get_content demo_fs demo_path = Some (concat (map (\<lambda>(tg, tx). filter (\<lambda>c. c \<noteq> newline) tx) demo_elems))"
    by (rule get_content_text [of demo_fs demo_path demo_elems, OF h1 h2 h3])
  also have "\<dots> = Some ''Boost Xfoobar''" by code_simp
  finally show ?thesis using h1 h2 h3 by simp
qed

text \<open>C27. The extracted content never contains \<open><\<close>.\<close>

theorem get_content_no_tag:
  "get_content fs p = Some c \<Longrightarrow> CHR ''<'' \<notin> set c"
  using content_loop_no_lt [of "[]" LABEL] by (auto simp: get_content_def Let_def split: if_splits)

theorem get_content_no_tag_witness:
  "get_content demo_fs demo_path = Some ''Boost Xfoobar'' \<and> CHR ''<'' \<notin> set ''Boost Xfoobar''"
proof -
  have h: "get_content demo_fs demo_path = Some ''Boost Xfoobar''" by code_simp
  show ?thesis using h get_content_no_tag [OF h] by simp
qed

text \<open>C28. \<open>get_url\<close> appends the path after its first ten characters (the
  length of \<open>data/input\<close>) to the Boost url, and throws \<open>out_of_range\<close>
  on a path shorter than ten characters.\<close>

theorem get_url_eq:
  "get_url p = (if length p < 10 then Inl Out_of_range else Inr (url_head @ drop 10 p))"
  by (simp add: get_url_def substr_def numeral_eq_Suc)

text \<open>C29. \<open>parse_html\<close> returns false on an empty list and otherwise pushes one
  record per path, in order, built from the three extractions; the only
  exception is \<open>get_url\<close>'s, on a path shorter than ten characters
  (\<open>get_title\<close>'s \<open>substr\<close> never throws).\<close>

theorem parse_html_eq:
  "parse_html fs htmls fcs =
     (if htmls = [] then Inr (False, fcs)
      else if \<exists>p \<in> set htmls. length p < 10 then Inl Out_of_range
      else Inr (True, fcs @ map (parsed fs) htmls))"
  by (simp add: parse_html_def parse_loop_eq)

theorem parse_html_eq_witness:
  "parse_html demo_fs [demo_path] [] = Inr (True, [parsed demo_fs demo_path]) \<and>
   parse_html demo_fs [''short''] [] = Inl Out_of_range"
  using parse_html_eq [of demo_fs "[demo_path]" "[]"] parse_html_eq [of demo_fs "[''short'']" "[]"]
  by (simp add: demo_path_def)

text \<open>C30. When the input directory exists, holds at least one \<open>.html\<close> regular
  file, every such path is at least ten characters long and \<open>raw.txt\<close>
  can be opened, \<open>main\<close> exits with 0 after appending one line per
  document, in the iterator's order, to \<open>raw.txt\<close>.\<close>

theorem parser_main_ok:
  assumes "root_exists env" and "raw_txt env = Some txt"
    and "htmls = map fst (filter is_html_entry (entries env))" and "htmls \<noteq> []"
    and "\<forall>p \<in> set htmls. 10 \<le> length p"
  shows "parser_main env = Inr (0, Some (txt @ concat (map (\<lambda>p. record_line (parsed (html_files env) p)) htmls)))"
  using assms by (auto simp: parser_main_def extract_html_eq parse_html_def parse_loop_eq save_file_eq comp_def)

theorem parser_main_ok_witness:
  "root_exists demo_env \<and> raw_txt demo_env = Some [] \<and>
   [demo_path] = map fst (filter is_html_entry (entries demo_env)) \<and> [demo_path] \<noteq> [] \<and>
   10 \<le> length demo_path \<and>
   parser_main demo_env = Inr (0, Some (record_line (parsed demo_fs demo_path)))"
proof -
  have h1: "root_exists demo_env" and h2: "raw_txt demo_env = Some []"
    by (simp_all add: demo_env_def)
  have h3: "[demo_path] = map fst (filter is_html_entry (entries demo_env))" by code_simp
  have h4: "[demo_path] \<noteq> []" by simp
  have h5: "\<forall>p \<in> set [demo_path]. 10 \<le> length p" by (simp add: demo_path_def)
  have h6: "html_files demo_env = demo_fs" by (simp add: demo_env_def)
  have "parser_main demo_env =
          Inr (0, Some ([] @ concat (map (\<lambda>p. record_line (parsed (html_files demo_env) p)) [demo_path])))"
    by (rule parser_main_ok [OF h1 h2 h3 h4 h5])
  then have "parser_main demo_env = Inr (0, Some (record_line (parsed demo_fs demo_path)))"
    by (simp only: h6 append_Nil list.map concat.simps append_Nil2)
  moreover have "10 \<le> length demo_path" by (simp add: demo_path_def)
  ultimately show ?thesis using h1 h2 h3 h4 by blast
qed

end
