(* ===== verification/Log.thy ===== *)
theory Log
  imports Tools
begin

text \<open>
  Model of \<open>src/Log.hpp\<close>: the levels, \<open>get_level\<close>, \<open>get_time\<close> (the
  local time as six decimal fields joined by \<open>:\<close>), \<open>log_message\<close> (the
  line \<open>[time][level][pid][file][line][message]\<close>, the message formatted
  by \<open>vsnprintf\<close> into a buffer of 1024 bytes), the file writer \<open>save_file\<close>
  and the switches \<open>able_save\<close>/\<open>enable_save\<close>. The state is the global flag
  \<open>is_save\<close>, the contents of \<open>log.log\<close> (\<^term>\<open>None\<close> when it cannot be
  opened) and what has been written to standard output. The clock
  (\<open>localtime\<close>, which may fail) and \<open>getpid\<close> are inputs of each call; the
  formatting of \<open>format\<close> with its arguments is the text \<open>fmt\<close> that
  \<open>vsnprintf\<close> would produce without a size limit.
\<close>

section \<open>State\<close>

datatype level = DEBUG | INFO | WARNING | ERROR | FATAL

record log_state =
  is_save :: bool
  log_file :: "string option"
  stdout :: string

definition log_init :: log_state where
  "log_init = \<lparr>is_save = False, log_file = Some [], stdout = []\<rparr>"

definition able_save :: "log_state \<Rightarrow> log_state" where
  "able_save s = s\<lparr>is_save := True\<rparr>"

text \<open>Despite its name, \<open>enable_save()\<close> turns saving off.\<close>

definition enable_save :: "log_state \<Rightarrow> log_state" where
  "enable_save s = s\<lparr>is_save := False\<rparr>"

section \<open>The parts of a line\<close>

text \<open>The fields of \<open>struct tm\<close> that \<open>get_time\<close> reads.\<close>

record tm =
  tm_year :: int
  tm_mon :: int
  tm_mday :: int
  tm_hour :: int
  tm_min :: int
  tm_sec :: int

definition get_time :: "tm option \<Rightarrow> string" where
  "get_time lt =
     (case lt of
        None \<Rightarrow> ''null''
      | Some t \<Rightarrow>
          to_string (tm_year t + 1900) @ '':'' @ to_string (tm_mon t + 1) @ '':'' @
          to_string (tm_mday t) @ '':'' @ to_string (tm_hour t) @ '':'' @
          to_string (tm_min t) @ '':'' @ to_string (tm_sec t))"

fun get_level :: "level \<Rightarrow> string" where
  "get_level DEBUG = ''debug''"
| "get_level ERROR = ''error''"
| "get_level FATAL = ''fatal''"
| "get_level INFO = ''info''"
| "get_level WARNING = ''warning''"

text \<open>\<open>vsnprintf(buff, 1024, ...)\<close> stores at most 1023 bytes and a
  terminating NUL; \<open>"[" + buff\<close> reads the buffer up to the first NUL.\<close>

definition log_buff :: "string \<Rightarrow> string" where
  "log_buff fmt = takeWhile (\<lambda>c. c \<noteq> CHR 0x00) (take 1023 fmt)"

definition log_line :: "string \<Rightarrow> int \<Rightarrow> level \<Rightarrow> string \<Rightarrow> tm option \<Rightarrow> int \<Rightarrow> string" where
  "log_line file_name line lv fmt lt pid =
     ''['' @ get_time lt @ '']'' @ ''['' @ get_level lv @ '']'' @ ''['' @ to_string pid @ '']'' @
     ''['' @ file_name @ '']'' @ ''['' @ to_string line @ '']'' @ ''['' @ log_buff fmt @ '']'' @ [newline]"

section \<open>Writing\<close>

text \<open>\<open>save_file\<close> of \<open>Log.hpp\<close> (named apart from the parser's): append to
  \<open>log.log\<close>, or do nothing when it cannot be opened.\<close>

definition save_file_log :: "string \<Rightarrow> log_state \<Rightarrow> log_state" where
  "save_file_log message s =
     (case log_file s of None \<Rightarrow> s | Some txt \<Rightarrow> s\<lparr>log_file := Some (txt @ message)\<rparr>)"

definition log_message :: "string \<Rightarrow> int \<Rightarrow> level \<Rightarrow> string \<Rightarrow> tm option \<Rightarrow> int \<Rightarrow> log_state \<Rightarrow> log_state" where
  "log_message file_name line lv fmt lt pid s =
     (let message = log_line file_name line lv fmt lt pid in
      if is_save s then save_file_log message s else s\<lparr>stdout := stdout s @ message\<rparr>)"

text \<open>A sequence of \<open>LOG\<close> calls, each with its clock reading and pid.\<close>

record log_call =
  call_file :: string
  call_line :: int
  call_level :: level
  call_fmt :: string
  call_time :: "tm option"
  call_pid :: int

definition log_call_line :: "log_call \<Rightarrow> string" where
  "log_call_line c = log_line (call_file c) (call_line c) (call_level c) (call_fmt c) (call_time c) (call_pid c)"

definition log_run :: "log_call list \<Rightarrow> log_state \<Rightarrow> log_state" where
  "log_run cs s =
     fold (\<lambda>c. log_message (call_file c) (call_line c) (call_level c) (call_fmt c) (call_time c) (call_pid c)) cs s"

section \<open>Lemmas\<close>

lemma log_message_eq:
  "log_message f l lv fmt lt pid s =
     (if is_save s then s\<lparr>log_file := map_option (\<lambda>t. t @ log_line f l lv fmt lt pid) (log_file s)\<rparr>
      else s\<lparr>stdout := stdout s @ log_line f l lv fmt lt pid\<rparr>)"
  by (simp add: log_message_def save_file_log_def split: option.split)

lemma log_run_Cons:
  "log_run (c # cs) s = log_run cs (log_message (call_file c) (call_line c) (call_level c) (call_fmt c) (call_time c) (call_pid c) s)"
  by (simp add: log_run_def)

lemma to_string_no_colon: "CHR '':'' \<notin> set (to_string i)"
  using digits_is_digit [of "CHR '':''"] by (auto simp: to_string_def)

lemma to_string_ne: "to_string i \<noteq> []"
  by (simp add: to_string_def)

lemma dropWhile_colon_to_string:
  "dropWhile (\<lambda>x. x = CHR '':'') (to_string i @ rest) = to_string i @ rest"
  using to_string_ne [of i] to_string_no_colon [of i] by (cases "to_string i") auto

section \<open>Properties of the log\<close>

text \<open>C32. Every \<open>LOG\<close> call appends its line, in call order: to
  \<open>log.log\<close> after \<open>able_save()\<close> (nothing at all when the file cannot be
  opened), to standard output otherwise; the other output is untouched.\<close>

theorem log_run_routing:
  "log_run cs s =
     (if is_save s then s\<lparr>log_file := map_option (\<lambda>t. t @ concat (map log_call_line cs)) (log_file s)\<rparr>
      else s\<lparr>stdout := stdout s @ concat (map log_call_line cs)\<rparr>)"
proof (induction cs arbitrary: s)
  case Nil
  then show ?case by (cases "log_file s") (simp_all add: log_run_def)
next
  case (Cons c cs)
  then show ?case
    by (cases "log_file s") (simp_all add: log_run_Cons log_message_eq log_call_line_def)
qed

text \<open>C33. The message part of a log line is at most 1023 bytes: a longer
  formatted message is cut (silently) by \<open>vsnprintf\<close>, and one without a
  NUL byte is kept up to that length.\<close>

theorem log_buff_bound:
  "length (log_buff fmt) \<le> 1023 \<and> (CHR 0x00 \<notin> set fmt \<longrightarrow> log_buff fmt = take 1023 fmt)"
proof -
  have "length (log_buff fmt) \<le> length (take 1023 fmt)"
    unfolding log_buff_def by (rule length_takeWhile_le)
  moreover have "CHR 0x00 \<notin> set fmt \<Longrightarrow> log_buff fmt = take 1023 fmt"
    unfolding log_buff_def by (auto simp: takeWhile_eq_all_conv dest: in_set_takeD)
  ultimately show ?thesis by simp
qed

theorem log_buff_bound_witness:
  "CHR 0x00 \<notin> set ''query:foo'' \<and> log_buff ''query:foo'' = ''query:foo''"
proof -
  have h: "CHR 0x00 \<notin> set ''query:foo''" by simp
  show ?thesis using h log_buff_bound [of "''query:foo''"] by simp
qed

text \<open>C34. The time stamp of a log line reads back: split at \<open>:\<close>, its six
  fields are the year, month (from 1), day, hour, minute and second of the
  clock reading, negative values included.\<close>

theorem get_time_roundtrip:
  "map int_of_string (split_string (get_time (Some t)) '':'') =
     [tm_year t + 1900, tm_mon t + 1, tm_mday t, tm_hour t, tm_min t, tm_sec t]"
  by (simp add: get_time_def split_string_def split_acc_field split_acc_plain
                to_string_no_colon dropWhile_colon_to_string dropWhile_colon_to_string [of _ "[]", simplified] del: split_acc.simps)

end
