(* ===== verification/Weight32.thy ===== *)
theory Weight32
  imports Searcher "HOL-Library.Word"
begin

text \<open>
  The weights at the width the code gives them. \<open>word_num\<close>'s counters, the
  posting weight \<open>Inverted_item::weight_\<close>, the candidate weight
  \<open>InvertedElemPrint::weight_\<close> and the comparison of \<open>std::sort\<close> are all
  C++ \<open>int\<close>s (\<open>src/index.hpp\<close>, \<open>src/searcher.hpp\<close>); the other theories
  use mathematical integers for them. Here they are 32-bit words read as
  two's complement by \<^term>\<open>sint\<close>: \<open>+\<close> and \<open>*\<close> wrap, as two's complement
  hardware does (in C++ a signed overflow is undefined behaviour; the wrapped
  value is what the compiled code computes in practice). The theory relates
  the two: the 32-bit accumulation is the mathematical one with each weight
  wrapped; while every weight stays below \<open>2^31\<close> the 32-bit search returns
  exactly the mathematical model's answer; at \<open>2^31\<close> a weight wraps to a
  negative number and the ranking turns over.
\<close>

type_synonym int32 = "32 word"

section \<open>Index weights\<close>

text \<open>\<open>int weight = title_num*TITLE + content_num*CONTENT\<close>. The counters
  are \<open>int\<close>s that start at 0 and are incremented once per occurrence, so after
  \<open>n\<close> occurrences they hold \<^term>\<open>word_of_int (int n) :: int32\<close>.\<close>

definition word_weight32 :: "word_num \<Rightarrow> int32" where
  "word_weight32 v = word_of_int (int (title_num v)) * 5 + word_of_int (int (content_num v)) * 1"

text \<open>The \<open>int\<close> a posting stores: the weight computed by \<open>word_weight32\<close>
  (lemma \<open>push_posting_weight32\<close>), the 32-bit image of the model's
  weight.\<close>

definition item_weight32 :: "inverted_item \<Rightarrow> int32" where
  "item_weight32 p = word_of_int (item_weight p)"

section \<open>Query weights\<close>

text \<open>\<open>InvertedElemPrint\<close> with its \<open>int weight_\<close>.\<close>

record elem32 =
  elem32_id :: nat
  elem32_weight :: int32
  words32 :: "string list"

definition elem32_0 :: elem32 where
  "elem32_0 = \<lparr>elem32_id = 0, elem32_weight = 0, words32 = []\<rparr>"

type_synonym cnt_map32 = "(nat \<times> elem32) list"

text \<open>The inner loop of \<open>search\<close> with \<open>tmp_elem.weight_ += item.weight_\<close>
  in 32 bits, and the query loop around it.\<close>

definition add_item32 :: "inverted_item \<Rightarrow> cnt_map32 \<Rightarrow> cnt_map32" where
  "add_item32 item cnt =
     (let e = (case map_of cnt (item_id item) of None \<Rightarrow> elem32_0 | Some e \<Rightarrow> e)
      in AList.update (item_id item)
           (e\<lparr>elem32_id := item_id item, elem32_weight := elem32_weight e + item_weight32 item,
              words32 := words32 e @ [item_word item]\<rparr>) cnt)"

definition collect32 :: "index \<Rightarrow> string list \<Rightarrow> cnt_map32 \<Rightarrow> cnt_map32" where
  "collect32 idx ws cnt0 =
     fold (\<lambda>word cnt. case get_inverted_index idx (to_lower word) of
                        None \<Rightarrow> cnt
                      | Some l \<Rightarrow> fold add_item32 l cnt) ws cnt0"

text \<open>\<open>std::sort\<close> with \<open>a.weight_ > b.weight_\<close> on the \<open>int\<close>s (the stable
  sort, as \<open>rank\<close>).\<close>

definition rank32 :: "elem32 list \<Rightarrow> elem32 list" where
  "rank32 xs = sort_key (\<lambda>e. - sint (elem32_weight e)) xs"

text \<open>The output loop reads only the id and the words of a candidate, so
  \<open>emit\<close> runs on each candidate with its weight read by \<^term>\<open>sint\<close>.\<close>

definition elem_of32 :: "elem32 \<Rightarrow> inverted_elem_print" where
  "elem_of32 e = \<lparr>elem_id = elem32_id e, elem_weight = sint (elem32_weight e), words = words32 e\<rparr>"

definition search32 :: "jieba_util \<Rightarrow> index \<Rightarrow> string \<Rightarrow> search_result list cpp" where
  "search32 ju idx query =
     (let ws = CutString ju query;
          cnt = collect32 idx ws [];
          inverted_all = map snd cnt
      in emit idx (map elem_of32 (rank32 inverted_all)))"

text \<open>The 32-bit image of a mathematical candidate.\<close>

definition elem32_of :: "inverted_elem_print \<Rightarrow> elem32" where
  "elem32_of e = \<lparr>elem32_id = elem_id e, elem32_weight = word_of_int (elem_weight e), words32 = words e\<rparr>"

section \<open>Lemmas\<close>

lemma sint_int32: "sint (word_of_int x :: int32) = signed_take_bit 31 x"
  by (simp add: sint_sbintrunc')

lemma sint_int32_eq_iff: "sint (word_of_int x :: int32) = x \<longleftrightarrow> - (2 ^ 31) \<le> x \<and> x < 2 ^ 31"
  by (simp add: sint_int32 signed_take_bit_int_eq_self_iff)

lemma word_cnt_lookup:
  "lookup_default word_num0 (count_content cw (count_title tw Map.empty)) k =
     \<lparr>title_num = count_list (map to_lower tw) k, content_num = count_list (map to_lower cw) k\<rparr>"
  by (auto simp: word_cnt_at lookup_default_def word_num0_def count_list_0_iff)

lemma word_weight32_eq: "word_weight32 v = word_of_int (word_weight v)"
  by (simp add: word_weight32_def word_weight_def wi_hom_syms)

lemma push_posting_weight32:
  "item_weight32 (last (lookup_default [] (push_posting did wc k ii) k)) = word_weight32 (lookup_default word_num0 wc k)"
  by (simp add: push_posting_def lookup_default_def item_weight32_def word_weight32_eq)

lemma elem32_of_add:
  "(elem32_of e)\<lparr>elem32_id := i, elem32_weight := elem32_weight (elem32_of e) + item_weight32 p,
      words32 := words32 (elem32_of e) @ [w]\<rparr> =
   elem32_of (e\<lparr>elem_id := i, elem_weight := elem_weight e + item_weight p, words := words e @ [w]\<rparr>)"
  by (simp add: elem32_of_def item_weight32_def wi_hom_syms)

lemma add_item32_refines:
  "add_item32 p (map (\<lambda>(i, e). (i, elem32_of e)) cnt) = map (\<lambda>(i, e). (i, elem32_of e)) (add_item p cnt)"
proof -
  have m: "map_of (map (\<lambda>(i, e). (i, elem32_of e)) cnt) k = map_option elem32_of (map_of cnt k)" for k
    by (induction cnt) auto
  have z: "elem32_0 = elem32_of elem0" by (simp add: elem32_0_def elem32_of_def elem0_def)
  have u: "AList.update k (elem32_of v) (map (\<lambda>(i, e). (i, elem32_of e)) cs) =
           map (\<lambda>(i, e). (i, elem32_of e)) (AList.update k v cs)" for k v and cs :: cnt_map
    by (induction cs) auto
  show ?thesis
    by (cases "map_of cnt (item_id p)") (simp_all add: add_item32_def add_item_def m z u elem32_of_add)
qed

lemma collect32_refines:
  "collect32 idx ws (map (\<lambda>(i, e). (i, elem32_of e)) cnt) = map (\<lambda>(i, e). (i, elem32_of e)) (collect idx ws cnt)"
proof (induction ws arbitrary: cnt)
  case Nil
  then show ?case by (simp add: collect32_def collect_def)
next
  case (Cons w ws)
  have f: "fold add_item32 l (map (\<lambda>(i, e). (i, elem32_of e)) c) = map (\<lambda>(i, e). (i, elem32_of e)) (fold add_item l c)"
    for l and c :: cnt_map
    by (induction l arbitrary: c) (simp_all add: add_item32_refines)
  show ?case
  proof (cases "get_inverted_index idx (to_lower w)")
    case None
    then show ?thesis using Cons.IH [of cnt] by (simp add: collect32_def collect_def)
  next
    case (Some l)
    then show ?thesis using Cons.IH [of "fold add_item l cnt"] by (simp add: collect32_def collect_def f)
  qed
qed

lemma hits_weight_nonneg:
  assumes "postings_sound ju idx" and "p \<in> set (hits idx ws i)"
  shows "0 \<le> item_weight p"
proof -
  from assms(2) obtain w where "p \<in> set (lookup_default [] (inverted_index idx) (to_lower w))"
    by (auto simp: hits_def)
  then obtain ps where "inverted_index idx (to_lower w) = Some ps" "p \<in> set ps"
    using lookup_default_nonempty by metis
  with assms(1) show ?thesis
    unfolding postings_sound_def posting_ok_def doc_weight_def by auto
qed

lemma collect_weight_nonneg:
  assumes "postings_sound ju idx" and "e \<in> set (map snd (collect idx ws []))"
  shows "0 \<le> elem_weight e"
proof -
  have m: "map_of (collect idx ws []) (elem_id e) = Some e" and h: "hits idx ws (elem_id e) \<noteq> []"
    using assms(2) by (simp_all add: collect_member)
  have "elem_weight (the (map_of (collect idx ws []) (elem_id e))) = sum_list (map item_weight (hits idx ws (elem_id e)))"
    using h by (simp add: map_of_collect merge_hits_def elem0_def)
  then have "elem_weight e = sum_list (map item_weight (hits idx ws (elem_id e)))" by (simp add: m)
  moreover have "0 \<le> sum_list (map item_weight (hits idx ws (elem_id e)))"
    using hits_weight_nonneg [OF assms(1)] by (intro sum_list_nonneg) auto
  ultimately show ?thesis by simp
qed

lemma map_snd_collect32:
  "map snd (collect32 idx ws []) = map elem32_of (map snd (collect idx ws []))"
  using collect32_refines [of idx ws "[]"] by (simp add: comp_def case_prod_beta')

lemma elem_of32_of: "sint (word_of_int (elem_weight e) :: int32) = elem_weight e \<Longrightarrow> elem_of32 (elem32_of e) = e"
  by (simp add: elem_of32_def elem32_of_def)

lemma rank32_of:
  "(\<And>e. e \<in> set xs \<Longrightarrow> sint (word_of_int (elem_weight e) :: int32) = elem_weight e) \<Longrightarrow>
   map elem_of32 (rank32 (map elem32_of xs)) = rank xs"
proof -
  assume fits: "\<And>e. e \<in> set xs \<Longrightarrow> sint (word_of_int (elem_weight e) :: int32) = elem_weight e"
  have "rank32 (map elem32_of xs) = map elem32_of (rank xs)"
    unfolding rank32_def rank_def by (rule sort_key_map_eq) (simp add: elem32_of_def fits)
  moreover have "map elem_of32 (map elem32_of (rank xs)) = rank xs"
    unfolding map_map by (rule map_idI) (simp add: elem_of32_of fits rank_def)
  ultimately show ?thesis by simp
qed

lemma rank32_overflow:
  "map elem32_id (rank32 (map elem32_of [\<lparr>elem_id = 0, elem_weight = 2 ^ 31, words = [''a'']\<rparr>,
                                         \<lparr>elem_id = 1, elem_weight = 1, words = [''b'']\<rparr>])) = [1, 0] \<and>
   map elem_id (rank [\<lparr>elem_id = 0, elem_weight = 2 ^ 31, words = [''a'']\<rparr>,
                      \<lparr>elem_id = 1, elem_weight = 1, words = [''b'']\<rparr>]) = [0, 1]"
  by (simp add: rank32_def rank_def elem32_of_def)

section \<open>Properties of the 32-bit weights\<close>

text \<open>C4. The \<open>int\<close> weight \<open>create_inverted_index\<close> computes for a
  word \<open>w\<close> of a document, from the counters its two loops fill, is
  \<open>5 * (title count) + (content count)\<close> of \<open>w\<close> wrapped to 32-bit two's
  complement; it is that number exactly when the number is below
  \<open>2^31\<close>, and from there on the \<open>int\<close> overflows.\<close>

theorem word_weight32_exact:
  "let n = 5 * count_list (title_terms ju d) w + count_list (content_terms ju d) w;
       v = lookup_default word_num0 (count_content (CutString ju (content d)) (count_title (CutString ju (title d)) Map.empty)) w
   in sint (word_weight32 v) = signed_take_bit 31 (int n) \<and> (sint (word_weight32 v) = int n \<longleftrightarrow> n < 2 ^ 31)"
proof -
  let ?n = "5 * count_list (title_terms ju d) w + count_list (content_terms ju d) w"
  let ?v = "lookup_default word_num0 (count_content (CutString ju (content d)) (count_title (CutString ju (title d)) Map.empty)) w"
  have "word_weight32 ?v = word_of_int (int ?n)"
    by (simp add: word_weight32_eq word_cnt_lookup word_weight_def title_terms_def content_terms_def)
  then have s: "sint (word_weight32 ?v) = signed_take_bit 31 (int ?n)" by (simp only: sint_int32)
  then show ?thesis using signed_take_bit_int_eq_self_iff [of 31 "int ?n"] by (simp add: Let_def) linarith
qed

text \<open>C14. On a well-formed index, the search with the code's 32-bit
  \<open>int\<close> weights (posting weights added into \<open>weight_\<close>, \<open>std::sort\<close>
  comparing the \<open>int\<close>s) gives exactly the answer of the mathematical model
  whenever every candidate's summed weight is below \<open>2^31\<close>.\<close>

theorem search32_exact:
  assumes inv: "index_inv ju idx"
    and bound: "\<forall>e \<in> set (map snd (collect idx (CutString ju q) [])). elem_weight e < 2 ^ 31"
  shows "search32 ju idx q = search ju idx q"
proof -
  let ?xs = "map snd (collect idx (CutString ju q) [])"
  have "postings_sound ju idx" using inv by (simp add: index_inv_def)
  then have "sint (word_of_int (elem_weight e) :: int32) = elem_weight e" if "e \<in> set ?xs" for e
    using bound that collect_weight_nonneg by (fastforce simp: sint_int32_eq_iff)
  then have "map elem_of32 (rank32 (map elem32_of ?xs)) = rank ?xs" by (rule rank32_of)
  then show ?thesis by (simp add: search32_def search_eq map_snd_collect32)
qed

theorem search32_exact_witness:
  "index_inv space_jieba idx2 \<and> map elem_weight (map snd (collect idx2 (CutString space_jieba ''foo'') [])) = [5, 1] \<and>
   search32 space_jieba idx2 ''foo'' = search space_jieba idx2 ''foo''"
proof -
  have c: "map elem_weight (map snd (collect idx2 (CutString space_jieba ''foo'') [])) = [5, 1]" by code_simp
  have b: "\<forall>e \<in> set (map snd (collect idx2 (CutString space_jieba ''foo'') [])). elem_weight e < 2 ^ 31"
    by code_simp
  show ?thesis using idx2_inv c search32_exact [OF idx2_inv b] by simp
qed

end
