(* ===== verification/Spec2Isabelle.thy ===== *)
theory Spec2Isabelle
  imports Server Singleton Parser Log Weight32
begin

text \<open>
  \<^bold>\<open>A verification library for the Boost-documentation search engine\<close>
  (repository \<open>Lyuih/Document-search-engine\<close>).

  \<^bold>\<open>The program.\<close> \<open>src/parser.cc\<close> extracts title, content and url from
  HTML files and appends one line per file, fields joined by the byte
  \<open>'\3'\<close>, to \<open>raw.txt\<close>. \<open>src/index.hpp\<close> (class \<open>Index\<close>, a singleton)
  reads that file line by line, builds the forward index (a vector of
  \<open>Doc\<close>, the id of a document being its position) and the inverted index
  (a hash map from a lower-cased word to its posting list of
  \<open>Inverted_item\<close>s, weight 5 per title occurrence and 1 per content
  occurrence). \<open>src/searcher.hpp\<close> (class \<open>Searcher\<close>) answers a query:
  tokenise, look up each word, sum the weights per document, sort by weight,
  and emit title, url and a highlighted snippet of every hit document.
  \<open>src/tools.hpp\<close> holds \<open>split_string\<close> (\<open>boost::split\<close>) and the
  tokenizer singleton \<open>JiebaUtil\<close> (cppjieba segmentation, then stop-word
  removal). \<open>src/http_server.cc\<close> serves \<open>/s?query=\<close> over cpp-httplib;
  \<open>src/Log.hpp\<close> writes log lines.

  \<^bold>\<open>Theories and correspondence.\<close>
  \<^item> \<open>Prelude\<close>: the C++ library behaviour the sources call, as total
    functions with errors as values: \<open>substr\<close>/\<open>str_replace\<close>
    (\<open>out_of_range\<close> is \<open>Inl Out_of_range\<close>), \<open>std_search\<close> (returns the
    haystack length for "not found", as the iterator \<open>end()\<close>),
    \<open>str_find\<close> (\<open>npos\<close> is \<open>None\<close>), \<open>getlines\<close> (\<open>std::getline\<close> loop),
    \<open>lower_char\<close> (\<open>tolower\<close> in the C locale), \<open>lookup_default\<close>
    (\<open>unordered_map::operator[]\<close> on read), and their lemmas.
  \<^item> \<open>Tools\<close> (\<open>tools.hpp\<close>): \<open>split_string\<close>/\<open>split_acc\<close> (the
    \<open>token_compress_on\<close> semantics, terminating by the length of the rest),
    the \<open>jieba_util\<close> state, \<open>InitJiebaUtil\<close>, \<open>CutStringHelper\<close> and its
    erase loop. The cppjieba segmenter is a parameter of the state, so every
    theorem holds for every segmenter. Properties C20 and C21 are about the
    line format; C24 shows that \<open>CutString\<close> erases exactly the lines of
    the stop-word file from the segmenter's tokens (nothing when the file
    cannot be opened).
  \<^item> \<open>Index\<close> (\<open>index.hpp\<close>): the records \<open>doc\<close>, \<open>inverted_item\<close>
    and \<open>index\<close> (the two members of \<open>Index\<close>), and one definition per step
    of the build: \<open>create_forward_index\<close>, the counting loops
    \<open>count_title\<close>/\<open>count_content\<close>, \<open>word_weight\<close>, \<open>push_posting\<close>,
    \<open>add_postings\<close> (the loop over \<open>word_cnt\<close>, over an explicit key order),
    \<open>create_inverted_index\<close>, \<open>index_line\<close> (the loop body of
    \<open>create_index\<close>), \<open>create_index\<close>, and the lookups
    \<open>get_forward_index\<close>/\<open>get_inverted_index\<close>. The state is passed
    explicitly. The invariant \<open>index_inv\<close> says that ids are dense and that
    posting lists are non-empty, strictly ordered by id, sound (right word,
    document and weight) and complete. Properties C1 to C3, C5, C6 and C8 are
    about it.
  \<^item> \<open>Searcher\<close> (\<open>searcher.hpp\<close>): the record \<open>inverted_elem_print\<close>, the
    query loop \<open>collect\<close>/\<open>add_item\<close>, the ranking \<open>rank\<close>, the snippet
    \<open>GetDescWithHighlight\<close> with \<open>highlight\<close> and its window, the output
    loop \<open>emit\<close> and \<open>search\<close>, the unused \<open>GetDesc\<close> (its \<open>int\<close>
    window) and \<open>init_search\<close>. The snippet's positions are \<open>int\<close>s as in
    the code (\<open>window_start\<close>), and \<open>size_t_of_int\<close> is the conversion of
    an \<open>int\<close> argument to \<open>substr\<close>'s \<open>size_t\<close> parameters, so the guard on
    \<open>start\<close> is what keeps \<open>substr\<close> in range (C15). Properties C9 to
    C13, C15 to C18 and C35 are about it; C18 shows that a query's answer
    holds exactly the documents containing one of its words. The
    abstract specifications are \<open>hits\<close> (which postings a query hits),
    \<open>rank_spec\<close> (the specified ranking, ties by ascending id),
    \<open>sort_contract\<close> (what \<open>std::sort\<close> promises) and \<open>emphasize\<close>.
  \<^item> \<open>Parser\<close> (\<open>parser.cc\<close>): \<open>extract_html\<close> over the list of
    entries the directory iterator yields, \<open>get_file_all\<close> over a map from
    path to file contents, \<open>get_title\<close> with its \<open>size_t\<close> positions as
    64-bit words, the \<open>LABEL\<close>/\<open>BODY\<close> machine \<open>content_loop\<close> of
    \<open>get_content\<close>, \<open>get_url\<close> (its \<open>substr\<close> may throw),
    \<open>parse_one\<close>/\<open>parse_loop\<close>/\<open>parse_html\<close>, \<open>save_file\<close> (append
    mode; \<open>record_line\<close> is one corpus line) and \<open>parser_main\<close> with its
    exit codes. Properties C25 to C30: the title is the text between the tags
    and its length never wraps; the content is the text outside tags with the
    line breaks deleted; no \<open><\<close> in the content; the url and its
    exception; \<open>parse_html\<close> and \<open>main\<close> on every branch. \<open>html_of\<close>
    describes a file as tags and texts, the specification of the extraction.
  \<^item> \<open>Singleton\<close> (\<open>Index::get_instance\<close>, \<open>JiebaUtil::get_instance\<close>):
    the double-checked locking of both singletons as an inductive step
    relation \<open>dclp_step\<close> of any number of threads over the shared state
    (pointer stored, object ready, allocation count, lock holder), with its
    reachability \<open>dclp_reach\<close>. Its parameter \<open>publish_order\<close> says
    whether the object is ready before the pointer is stored (\<open>Index\<close>),
    after (\<open>JiebaUtil\<close>, whose \<open>InitJiebaUtil\<close> runs after the store) or
    either (\<open>Index\<close> when the racy read lets the store be seen early). C22
    proves the program-order \<open>Index\<close> safe by an inductive invariant; C23
    is an interleaving of \<open>JiebaUtil\<close> in which a thread returns an object
    that is not ready (the lemma \<open>dclp_reordered_trace\<close> gives the same for
    \<open>Index\<close> under the reordering assumption); C39 shows that in program
    order every thread can return; C19 that in every order a run of \<open>n\<close>
    threads has at most \<open>6 * n\<close> steps, by the measure \<open>progress\<close> (the
    sum of the ranks \<open>pc_rank\<close> of the threads' positions, which every step
    raises), and stops only when all threads have returned (the invariant
    \<open>holder_critical\<close>: the lock holder is in its critical section).
  \<^item> \<open>Log\<close> (\<open>Log.hpp\<close>): the state \<open>is_save\<close> / \<open>log.log\<close> / standard
    output, \<open>get_level\<close>, \<open>get_time\<close> over \<open>localtime\<close>'s \<open>struct tm\<close>,
    the 1024-byte \<open>vsnprintf\<close> buffer \<open>log_buff\<close>, the line
    \<open>log_line\<close>, \<open>log_message\<close> and a run of calls \<open>log_run\<close>. C32:
    lines go to the file or to standard output in call order; C33: the
    message is cut at 1023 bytes; C34: the time stamp reads back.
    \<open>std::to_string\<close> is \<open>to_string\<close> in \<open>Prelude\<close>.
  \<^item> \<open>Server\<close> (\<open>http_server.cc\<close> and the JSON part of \<open>search\<close>): the
    \<open>Json::Value\<close> the code builds (\<open>json_set\<close>, \<open>json_append\<close>,
    \<open>json_root\<close>), its text through \<open>Json::FastWriter\<close> (\<open>json_write\<close>,
    written out from the jsoncpp documentation, with the string quoting as a
    parameter), \<open>search_json\<close>, the \<open>/s\<close> handler \<open>handle_search\<close>,
    and \<open>server_main\<close> (build once, then answer requests in turn). C7:
    the value built is \<open>null\<close> or a non-empty array of objects with the
    string members \<open>title\<close>, \<open>content\<close>, \<open>url\<close> (\<open>answer_typed\<close>); C36: no
    hit gives \<open>null\<close>, not \<open>[]\<close>; C37: the shape of the answer; C38: the
    server runs on an empty index when \<open>raw.txt\<close> is missing. The
    \<open>LOG\<close> calls made while building and searching only write to the log
    and are not threaded through this model.
  \<^item> \<open>Weight32\<close> (the \<open>int\<close>s of \<open>index.hpp\<close> and \<open>searcher.hpp\<close>):
    the weights at the code's width, as 32-bit words read by \<open>sint\<close>:
    \<open>word_weight32\<close> (\<open>int weight = title_num*5 + content_num*1\<close>),
    \<open>item_weight32\<close> (\<open>Inverted_item::weight_\<close>), the candidate
    \<open>elem32\<close> with \<open>add_item32\<close>/\<open>collect32\<close> (\<open>weight_ +=
    item.weight_\<close>), \<open>rank32\<close> (\<open>std::sort\<close> comparing the \<open>int\<close>s)
    and \<open>search32\<close>. It refines the mathematical model: the 32-bit
    accumulation is the mathematical one wrapped (\<open>collect32_refines\<close>).
    C4: the weight computed from the counters of a document is
    \<open>5 * title count + content count\<close> wrapped, exact exactly below
    \<open>2^31\<close>; C14: below that
    bound for every candidate, the 32-bit search gives the model's answer.
    \<open>rank32_overflow\<close> shows the ranking turning over past it.
  \<^item> This theory: C31, the corpus format round trip from \<open>parse_html\<close>
    and \<open>save_file\<close> through \<open>create_index\<close> to the forward index, and
    C40, the specification's title-over-body ranking test for one-word
    queries (it holds while the body has fewer than five times as many
    occurrences as the title).

  \<^bold>\<open>Choices that stand for unspecified behaviour.\<close> The iteration order
  of an \<open>unordered_map\<close> is unspecified: \<open>add_postings\<close> takes it as a
  parameter, and C6 shows that the index does not depend on it.
  \<open>collect\<close> iterates in first-hit order. \<open>std::sort\<close> with a weight-only
  comparison leaves the order of ties unspecified: \<open>rank\<close> is the stable
  sort, one admissible result: C12 shows that it is admissible and that every
  admissible result has the same candidates and weights position by position;
  C11 compares it with the specified ranking, and C13 shows that among equal
  weights \<open>rank\<close> keeps the \<open>cnt\<close> order where the specification sorts by
  id.
  Weights are mathematical integers in \<open>Index\<close> and \<open>Searcher\<close>;
  \<open>Weight32\<close> gives them the code's 32-bit width and shows the two agree
  while every weight is below \<open>2^31\<close>. Past it the C++ code has a signed
  overflow (undefined behaviour); the model takes the two's complement wrap
  that compiled code performs.

  \<^bold>\<open>Loops and termination.\<close> Every loop of the sources runs over a finite
  list (tokens, lines, postings, candidates) and is a \<open>fold\<close> or structural
  recursion. The one loop whose termination is not structural, the token loop
  of \<open>boost::split\<close> after skipping a separator run, is a \<open>function\<close>
  with a measure. The parser's loops are folds or structural recursion
  (\<open>content_loop\<close>, \<open>parse_loop\<close>). No fuel is needed. Positions in
  \<open>get_title\<close> are 64-bit words; its theorem assumes a file shorter than
  \<open>2^64\<close> bytes, which every real file is. The \<open>int\<close> positions of
  \<open>GetDesc\<close> and \<open>GetDescWithHighlight\<close> are mathematical integers,
  exact for contents shorter than \<open>2^31\<close> bytes (the match offset then fits
  an \<open>int\<close>). The singleton's liveness (C39) is the existence of a
  schedule, not fairness of the scheduler; its termination (C19) needs no
  fuel either: \<open>get_instance\<close> has no loop, and a step of a thread never
  moves it back.

  \<^bold>\<open>Not modelled.\<close> The cppjieba segmenter (a library; a parameter of
  the tokenizer state); jsoncpp's string quoting (a parameter of the writer);
  the HTTP transport and the thread pool of cpp-httplib (requests are
  answered one after the other, which is exact for the read-only index); the
  \<open>LOG\<close> calls outside \<open>Log\<close> (they only write to the log); the
  formatting of \<open>printf\<close>-style arguments (an input of a log call); the file
  system's own behaviour (\<open>boost::filesystem\<close> beyond \<open>extension\<close>, I/O
  errors in the middle of a read: a file is either unreadable or read
  whole). Every function and class of \<open>src/\<close> is modelled; what the map
  leaves out are comments, includes, prototypes and the dictionary paths of
  cppjieba.
\<close>

section \<open>From the parser to the index\<close>

text \<open>The fields of a parsed document, as the index reads them back, and the
  conditions under which its corpus line reads back as one record.\<close>

definition line_fields :: "file_content \<Rightarrow> string \<times> string \<times> string" where
  "line_fields fc = (fc_title fc, fc_content fc, fc_url fc)"

definition corpus_ok :: "file_content \<Rightarrow> bool" where
  "corpus_ok fc \<longleftrightarrow> CHR 0x03 \<notin> set (fc_title fc) \<and> CHR 0x03 \<notin> set (fc_content fc) \<and>
     CHR 0x03 \<notin> set (fc_url fc) \<and> newline \<notin> set (fc_url fc) \<and> fc_content fc \<noteq> []"

section \<open>Lemmas\<close>

lemma record_of_line_fields:
  assumes "CHR 0x03 \<notin> set t" and "CHR 0x03 \<notin> set c" and "CHR 0x03 \<notin> set u" and "c \<noteq> []"
  shows "record_of_line (t @ SEP3 @ c @ SEP3 @ u) = Some (t, c, u)"
proof -
  have "dropWhile (\<lambda>x. x \<in> set SEP3) (c @ SEP3 @ u) = c @ SEP3 @ u"
    using assms(2,4) by (cases c) auto
  moreover have "dropWhile (\<lambda>x. x \<in> set SEP3) u = u"
    using assms(3) by (cases u) auto
  ultimately show ?thesis
    using assms by (simp add: record_of_line_def split_string_def split_acc_field split_acc_plain)
qed

lemma record_line_split:
  "record_line fc = (fc_title fc @ SEP3 @ fc_content fc @ SEP3 @ fc_url fc) @ [newline]"
  by (simp add: record_line_def)

lemma corpus_lines:
  assumes "\<forall>fc \<in> set fcs. newline \<notin> set (fc_title fc) \<and> newline \<notin> set (fc_content fc) \<and> corpus_ok fc"
  shows "List.map_filter record_of_line (getlines (concat (map record_line fcs))) = map line_fields fcs"
proof -
  let ?ls = "map (\<lambda>fc. fc_title fc @ SEP3 @ fc_content fc @ SEP3 @ fc_url fc) fcs"
  have eq: "concat (map record_line fcs) = concat (map (\<lambda>l. l @ [newline]) ?ls)"
    by (induction fcs) (simp_all add: record_line_split)
  have "\<forall>l \<in> set ?ls. newline \<notin> set l"
    using assms by (auto simp: corpus_ok_def)
  then have "getlines (concat (map (\<lambda>l. l @ [newline]) ?ls)) = ?ls"
    by (rule getlines_records)
  then have "getlines (concat (map record_line fcs)) = ?ls"
    by (simp only: eq)
  moreover have "List.map_filter record_of_line ?ls = map line_fields fcs"
    using assms
  proof (induction fcs)
    case Nil
    then show ?case by (simp add: map_filter_simps)
  next
    case (Cons fc fcs)
    then show ?case
      using record_of_line_fields [of "fc_title fc" "fc_content fc" "fc_url fc"]
      by (simp add: map_filter_simps corpus_ok_def line_fields_def)
  qed
  ultimately show ?thesis by simp
qed

subsection \<open>One-word queries\<close>

lemma filter_distinct_key:
  "distinct (map f xs) \<Longrightarrow> x \<in> set xs \<Longrightarrow> filter (\<lambda>y. f y = f x) xs = [x]"
proof (induction xs)
  case Nil
  then show ?case by simp
next
  case (Cons y ys)
  then show ?case by (auto simp: filter_empty_conv) (metis image_eqI)
qed

lemma doc_weight_pos_term: "0 < doc_weight ju d w \<Longrightarrow> w \<in> doc_terms ju d"
proof (rule ccontr)
  assume "w \<notin> doc_terms ju d"
  then have "count_list (title_terms ju d) w = 0" "count_list (content_terms ju d) w = 0"
    by (simp_all add: doc_terms_def count_list_0_iff)
  moreover assume "0 < doc_weight ju d w"
  ultimately show False by (simp add: doc_weight_def)
qed

lemma one_word_candidate:
  assumes inv: "index_inv ju idx" and i: "i < length (forward_index idx)"
    and w: "to_lower w \<in> doc_terms ju (forward_index idx ! i)"
  shows "\<exists>e. map_of (collect idx [w] []) i = Some e \<and> elem_id e = i \<and>
             elem_weight e = doc_weight ju (forward_index idx ! i) (to_lower w)"
proof -
  obtain ps where ps: "inverted_index idx (to_lower w) = Some ps" and "i \<in> set (map item_id ps)"
    using inv i w unfolding index_inv_def postings_complete_def by blast
  then obtain p where p: "p \<in> set ps" "item_id p = i" by auto
  have sorted: "sorted_wrt (<) (map item_id ps)" and ok: "\<forall>p \<in> set ps. posting_ok ju (forward_index idx) (to_lower w) p"
    using inv ps unfolding index_inv_def postings_sound_def by blast+
  have "distinct (map item_id ps)" using sorted by (simp add: strict_sorted_iff) 
  then have "filter (\<lambda>y. item_id y = i) ps = [p]" using filter_distinct_key [of item_id ps p] p by simp
  then have "hits idx [w] i = [p]" by (simp add: hits_def ps lookup_default_def)
  moreover have "item_weight p = doc_weight ju (forward_index idx ! i) (to_lower w)"
    using ok p unfolding posting_ok_def by blast
  ultimately show ?thesis by (simp add: map_of_collect merge_hits_def elem0_def)
qed

lemma heavier_first:
  assumes "sorted_wrt (\<lambda>a b. elem_weight b \<le> elem_weight a) ys"
    and "ea \<in> set ys" and "eb \<in> set ys" and "elem_weight eb < elem_weight ea"
  shows "\<exists>i j. i < j \<and> j < length ys \<and> ys ! i = ea \<and> ys ! j = eb"
proof -
  obtain i j where i: "i < length ys" "ys ! i = ea" and j: "j < length ys" "ys ! j = eb"
    using assms(2,3) by (auto simp: in_set_conv_nth)
  have "i < j"
  proof (rule ccontr)
    assume "\<not> i < j"
    then have "j < i \<or> j = i" by linarith
    then show False
    proof
      assume "j < i"
      then have "elem_weight (ys ! i) \<le> elem_weight (ys ! j)"
        using sorted_wrt_nth_less [OF assms(1) _ i(1)] by blast
      then show False using i j assms(4) by simp
    next
      assume "j = i"
      then show False using i j assms(4) by simp
    qed
  qed
  then show ?thesis using i j by blast
qed

lemma map_of_collect_in_set: "map_of (collect idx ws []) i = Some e \<Longrightarrow> e \<in> set (map snd (collect idx ws []))"
  by (force dest: map_of_SomeD)

section \<open>Properties across components\<close>

text \<open>C31. The corpus format round trip: when the parser has produced the
  documents and none of their fields contains the separator \<open>'\3'\<close>, no
  url contains a newline and no content is empty, the index built from the
  freshly written \<open>raw.txt\<close> has exactly these documents, in order, with
  their title, content and url. (Titles and contents never contain a newline:
  the parser reads files line by line.)\<close>

theorem corpus_roundtrip:
  assumes "parse_html fs htmls [] = Inr (True, fcs)" and "\<forall>fc \<in> set fcs. corpus_ok fc"
  shows "map doc_fields (forward_index (snd (create_index ju (snd (save_file (Some []) fcs)) new_Index))) =
         map line_fields fcs"
proof -
  have fcs: "fcs = map (parsed fs) htmls"
    using assms(1) by (auto simp: parse_html_def parse_loop_eq split: if_splits)
  then have "\<forall>fc \<in> set fcs. newline \<notin> set (fc_title fc) \<and> newline \<notin> set (fc_content fc) \<and> corpus_ok fc"
    using assms(2) parsed_no_newline by auto
  then show ?thesis
    by (simp add: save_file_eq create_index_def fold_index_line_fields corpus_lines new_Index_def)
qed

theorem corpus_roundtrip_witness:
  "parse_html demo_fs [demo_path] [] = Inr (True, [parsed demo_fs demo_path]) \<and>
   corpus_ok (parsed demo_fs demo_path) \<and>
   map doc_fields (forward_index (snd (create_index space_jieba (snd (save_file (Some []) [parsed demo_fs demo_path])) new_Index))) =
     [(''Boost X'', ''Boost Xfoobar'', ''https://www.boost.org/doc/libs/1_78_0/doc/html/a.html'')]"
proof -
  have h1: "parse_html demo_fs [demo_path] [] = Inr (True, [parsed demo_fs demo_path])"
    by (simp add: parse_html_def parse_loop_eq demo_path_def)
  have h2: "\<forall>fc \<in> set [parsed demo_fs demo_path]. corpus_ok fc" by code_simp
  have "map line_fields [parsed demo_fs demo_path] =
          [(''Boost X'', ''Boost Xfoobar'', ''https://www.boost.org/doc/libs/1_78_0/doc/html/a.html'')]"
    by code_simp
  then show ?thesis using h1 h2 corpus_roundtrip [OF h1 h2, of space_jieba] by simp
qed

text \<open>C40. The ranking the specification's acceptance test describes: for a
  one-word query on a built index, a document whose weight for the word is
  higher (five per title occurrence, one per content occurrence) is output
  before a lower-weight hit document. So a title-only hit ranks above a
  body-only hit exactly when the body has fewer than five times as many
  occurrences as the title: with five or more, the body-only document is not
  ranked below.\<close>

theorem title_hit_ranks_first:
  assumes inv: "index_inv ju idx" and q: "CutString ju query = [w]"
    and a: "a < length (forward_index idx)" and b: "b < length (forward_index idx)"
    and hit: "to_lower w \<in> doc_terms ju (forward_index idx ! b)"
    and heavier: "doc_weight ju (forward_index idx ! b) (to_lower w) < doc_weight ju (forward_index idx ! a) (to_lower w)"
  shows "\<exists>rs i j. search ju idx query = Inr rs \<and> i < j \<and> j < length rs \<and>
           r_title (rs ! i) = title (forward_index idx ! a) \<and> r_url (rs ! i) = url (forward_index idx ! a) \<and>
           r_title (rs ! j) = title (forward_index idx ! b) \<and> r_url (rs ! j) = url (forward_index idx ! b)"
proof -
  let ?fwd = "forward_index idx"
  let ?cands = "map snd (collect idx [w] [])"
  have "0 < doc_weight ju (?fwd ! a) (to_lower w)"
    using heavier by (simp add: doc_weight_def)
  then have hit_a: "to_lower w \<in> doc_terms ju (?fwd ! a)" by (rule doc_weight_pos_term)
  obtain ea where ea: "map_of (collect idx [w] []) a = Some ea" "elem_id ea = a"
    "elem_weight ea = doc_weight ju (?fwd ! a) (to_lower w)"
    using one_word_candidate [OF inv a hit_a] by blast
  obtain eb where eb: "map_of (collect idx [w] []) b = Some eb" "elem_id eb = b"
    "elem_weight eb = doc_weight ju (?fwd ! b) (to_lower w)"
    using one_word_candidate [OF inv b hit] by blast
  have sorted: "sorted_wrt (\<lambda>a b. elem_weight b \<le> elem_weight a) (rank ?cands)"
    and ms: "mset (rank ?cands) = mset ?cands"
    using rank_contract [of ?cands] unfolding sort_contract_def by blast+
  have sets: "set (rank ?cands) = set ?cands" using ms by (rule mset_eq_setD)
  obtain i j where ij: "i < j" "j < length (rank ?cands)" "rank ?cands ! i = ea" "rank ?cands ! j = eb"
    using heavier_first [OF sorted, of ea eb] map_of_collect_in_set [OF ea(1)] map_of_collect_in_set [OF eb(1)]
      sets ea(3) eb(3) heavier by auto
  have "postings_sound ju idx" using inv by (simp add: index_inv_def)
  then have "\<forall>e \<in> set (rank ?cands). elem_id e < length ?fwd"
    using collect_ids_valid sets by blast
  then have "search ju idx query = Inr (map (result_of idx) (rank ?cands))"
    by (simp add: search_eq emit_eq q)
  then show ?thesis
    using ij ea(2) eb(2) by (intro exI [of _ "map (result_of idx) (rank ?cands)"] exI [of _ i] exI [of _ j])
      (simp add: result_of_def Let_def)
qed

theorem title_hit_ranks_first_witness:
  "index_inv space_jieba idx2 \<and> CutString space_jieba ''foo'' = [''foo''] \<and>
   0 < length (forward_index idx2) \<and> 1 < length (forward_index idx2) \<and>
   to_lower ''foo'' \<in> doc_terms space_jieba (forward_index idx2 ! 1) \<and>
   doc_weight space_jieba (forward_index idx2 ! 1) (to_lower ''foo'') <
     doc_weight space_jieba (forward_index idx2 ! 0) (to_lower ''foo'') \<and>
   (\<exists>rs i j. search space_jieba idx2 ''foo'' = Inr rs \<and> i < j \<and> j < length rs \<and>
      r_title (rs ! i) = ''Foo guide'' \<and> r_url (rs ! i) = ''u1'' \<and>
      r_title (rs ! j) = ''Other'' \<and> r_url (rs ! j) = ''u2'')"
proof -
  have h1: "index_inv space_jieba idx2" by (rule idx2_inv)
  have h2: "CutString space_jieba ''foo'' = [''foo'']" by code_simp
  have h3: "0 < length (forward_index idx2)" and h4: "1 < length (forward_index idx2)" by code_simp+
  have h5: "to_lower ''foo'' \<in> doc_terms space_jieba (forward_index idx2 ! 1)" by code_simp
  have h6: "doc_weight space_jieba (forward_index idx2 ! 1) (to_lower ''foo'') <
     doc_weight space_jieba (forward_index idx2 ! 0) (to_lower ''foo'')" by code_simp
  have d: "title (forward_index idx2 ! 0) = ''Foo guide''" "url (forward_index idx2 ! 0) = ''u1''"
    "title (forward_index idx2 ! 1) = ''Other''" "url (forward_index idx2 ! 1) = ''u2''" by code_simp+
  show ?thesis using h1 h2 h3 h4 h5 h6 title_hit_ranks_first [OF h1 h2 h3 h4 h5 h6] by (simp only: d)
qed

end
